theory Spec2Isabelle
  imports Main "HOL-Library.Multiset" "HOL-Library.Char_ord" "HOL-Library.List_Lexorder"
    "HOL-Library.Product_Lexorder" "HOL-Library.Option_ord"
begin

section \<open>Statistics records of scan\_annotations.py\<close>

text \<open>
  \<^verbatim>\<open>AnnotationScanStatsBase\<close> is a dataclass of nine Python integers. Python integers
  are unbounded, hence \<^typ>\<open>int\<close>. The record is extensible, as the class is: the per-file
  result inherits the nine counters and adds the token lists.
\<close>

record AnnotationScanStatsBase =
  total_assign_count :: int
  annotated_assign_count :: int
  unannotated_assign_count :: int
  total_func_params_count :: int
  annotated_func_params_count :: int
  unannotated_func_params_count :: int
  total_func_returns_count :: int
  annotated_func_returns_count :: int
  unannotated_func_returns_count :: int

text \<open>
  \<^verbatim>\<open>_add_result\<close> walks \<^verbatim>\<open>fields(self)\<close> and uses \<^verbatim>\<open>getattr\<close> and \<^verbatim>\<open>setattr\<close>
  by field name. The field names are a datatype, in declaration order.
\<close>

datatype field_name =
    F_total_assign_count
  | F_annotated_assign_count
  | F_unannotated_assign_count
  | F_total_func_params_count
  | F_annotated_func_params_count
  | F_unannotated_func_params_count
  | F_total_func_returns_count
  | F_annotated_func_returns_count
  | F_unannotated_func_returns_count

definition dataclass_fields :: "field_name list" where
  "dataclass_fields =
    [F_total_assign_count, F_annotated_assign_count, F_unannotated_assign_count,
     F_total_func_params_count, F_annotated_func_params_count, F_unannotated_func_params_count,
     F_total_func_returns_count, F_annotated_func_returns_count,
     F_unannotated_func_returns_count]"

fun getattr :: "'a AnnotationScanStatsBase_scheme \<Rightarrow> field_name \<Rightarrow> int" where
  "getattr s F_total_assign_count = total_assign_count s"
| "getattr s F_annotated_assign_count = annotated_assign_count s"
| "getattr s F_unannotated_assign_count = unannotated_assign_count s"
| "getattr s F_total_func_params_count = total_func_params_count s"
| "getattr s F_annotated_func_params_count = annotated_func_params_count s"
| "getattr s F_unannotated_func_params_count = unannotated_func_params_count s"
| "getattr s F_total_func_returns_count = total_func_returns_count s"
| "getattr s F_annotated_func_returns_count = annotated_func_returns_count s"
| "getattr s F_unannotated_func_returns_count = unannotated_func_returns_count s"

fun setattr ::
  "'a AnnotationScanStatsBase_scheme \<Rightarrow> field_name \<Rightarrow> int \<Rightarrow> 'a AnnotationScanStatsBase_scheme"
where
  "setattr s F_total_assign_count v = s\<lparr>total_assign_count := v\<rparr>"
| "setattr s F_annotated_assign_count v = s\<lparr>annotated_assign_count := v\<rparr>"
| "setattr s F_unannotated_assign_count v = s\<lparr>unannotated_assign_count := v\<rparr>"
| "setattr s F_total_func_params_count v = s\<lparr>total_func_params_count := v\<rparr>"
| "setattr s F_annotated_func_params_count v = s\<lparr>annotated_func_params_count := v\<rparr>"
| "setattr s F_unannotated_func_params_count v = s\<lparr>unannotated_func_params_count := v\<rparr>"
| "setattr s F_total_func_returns_count v = s\<lparr>total_func_returns_count := v\<rparr>"
| "setattr s F_annotated_func_returns_count v = s\<lparr>annotated_func_returns_count := v\<rparr>"
| "setattr s F_unannotated_func_returns_count v = s\<lparr>unannotated_func_returns_count := v\<rparr>"

text \<open>
  \<^verbatim>\<open>AnnotationScanGroupResult\<close> has the nine counters and nothing else; its constructor
  passes nine zeros to the dataclass initialiser.
\<close>

type_synonym AnnotationScanGroupResult = AnnotationScanStatsBase

definition AnnotationScanGroupResult_init :: AnnotationScanGroupResult where
  "AnnotationScanGroupResult_init =
    \<lparr>total_assign_count = 0, annotated_assign_count = 0, unannotated_assign_count = 0,
     total_func_params_count = 0, annotated_func_params_count = 0,
     unannotated_func_params_count = 0,
     total_func_returns_count = 0, annotated_func_returns_count = 0,
     unannotated_func_returns_count = 0\<rparr>"

text \<open>
  \<^verbatim>\<open>_add_result\<close>: the loop over the fields, each step reading the current value of the
  accumulator, adding the other record's value and storing the sum. The value of the
  accumulator object after the call is returned; that the Python object is updated in place
  is modelled further down, where the accumulator lives in a store.
\<close>

definition add_field ::
  "'b AnnotationScanStatsBase_scheme \<Rightarrow> field_name \<Rightarrow>
   AnnotationScanGroupResult \<Rightarrow> AnnotationScanGroupResult"
where
  "add_field result field_name self =
    (let val = getattr self field_name;
         new_val = val + getattr result field_name
     in setattr self field_name new_val)"

definition add_result ::
  "AnnotationScanGroupResult \<Rightarrow> 'b AnnotationScanStatsBase_scheme \<Rightarrow> AnnotationScanGroupResult"
where
  "add_result self result = fold (add_field result) dataclass_fields self"

text \<open>The nine counters of any statistics record, without what a subclass adds.\<close>

definition counters :: "'a AnnotationScanStatsBase_scheme \<Rightarrow> AnnotationScanStatsBase" where
  "counters s = AnnotationScanStatsBase.truncate s"

text \<open>
  Folding a sequence of records into an accumulator with \<^verbatim>\<open>+\<close>, left to right, as the
  loop of \<^verbatim>\<open>scan_files\<close> does; and the sum of one batch, starting from a fresh
  accumulator.
\<close>

definition fold_results ::
  "AnnotationScanGroupResult \<Rightarrow> 'b AnnotationScanStatsBase_scheme list \<Rightarrow> AnnotationScanGroupResult"
where
  "fold_results acc rs = foldl add_result acc rs"

definition batch_sum :: "'b AnnotationScanStatsBase_scheme list \<Rightarrow> AnnotationScanGroupResult" where
  "batch_sum rs = fold_results AnnotationScanGroupResult_init rs"

section \<open>Errors\<close>

text \<open>
  The exceptions the scanner can meet. \<open>SyntaxError\<close> is what \<^verbatim>\<open>ast.parse\<close> raises on a
  text that is not valid Python, \<open>TypeError\<close> is raised by \<^verbatim>\<open>Assignment.__init__\<close> itself,
  \<open>AttributeError\<close> is what reading a missing attribute of a node raises, \<open>OSError\<close> is a
  file that cannot be read. A computation that may raise returns \<open>error + 'a\<close>.
\<close>

datatype error = SyntaxError | TypeError | AttributeError | OSError | OtherError string

fun and_then :: "error + 'a \<Rightarrow> ('a \<Rightarrow> error + 'b) \<Rightarrow> error + 'b" where
  "and_then (Inl e) f = Inl e"
| "and_then (Inr x) f = f x"

section \<open>Syntax trees\<close>

text \<open>
  The nodes of Python's \<^verbatim>\<open>ast\<close> module, as far as the scanner tells them apart: the five
  classes it tests for, the \<^verbatim>\<open>arguments\<close> node that holds the parameters, the two
  classes it builds itself (\<^verbatim>\<open>Expr\<close>, \<^verbatim>\<open>Constant\<close>), the root \<^verbatim>\<open>Module\<close>, and
  \<open>Other\<close> for a node of any other class, with the class name, the values of its fields
  that are not nodes, and its child nodes in field order. The fields of each constructor
  are the \<^verbatim>\<open>_fields\<close> of the class, in order.

  A location is \<^verbatim>\<open>(lineno, end_lineno)\<close>; \<^verbatim>\<open>end_lineno\<close> may be \<^verbatim>\<open>None\<close>. A node built with
  positional arguments only, as the scanner builds its body-less copy, has no
  \<^verbatim>\<open>lineno\<close> attribute: its location is \<open>None\<close>. \<^verbatim>\<open>Module\<close> and \<^verbatim>\<open>arguments\<close> never
  have one.
\<close>

type_synonym location = "int \<times> int option"

datatype const_value =
    Ellipsis | ConstNone | ConstBool bool | ConstInt int | ConstStr string | ConstOther string

datatype ast =
    Module "ast list" "ast list"
  | Assign "location option" "ast list" ast "string option"
  | AnnAssign "location option" ast ast "ast option" int
  | arg "location option" string "ast option" "string option"
  | arguments "ast list" "ast list" "ast option" "ast list" "ast option list" "ast option"
      "ast list"
  | FunctionDef "location option" string ast "ast list" "ast list" "ast option" "string option"
  | AsyncFunctionDef "location option" string ast "ast list" "ast list" "ast option"
      "string option"
  | Expr "location option" ast
  | Constant "location option" const_value "string option"
  | Other string "location option" "string list" "ast list"

text \<open>
  \<^verbatim>\<open>ast.iter_child_nodes\<close>: the fields in order; a field that is a node is yielded, of a field
  that is a list the items that are nodes are yielded, everything else (\<^verbatim>\<open>None\<close>, strings,
  numbers) is skipped.
\<close>

fun if_node :: "'a option \<Rightarrow> 'a list" where
  "if_node None = []"
| "if_node (Some n) = [n]"

fun iter_child_nodes :: "ast \<Rightarrow> ast list" where
  "iter_child_nodes (Module body type_ignores) = body @ type_ignores"
| "iter_child_nodes (Assign _ targets val _) = targets @ [val]"
| "iter_child_nodes (AnnAssign _ target annotation val _) = [target, annotation] @ if_node val"
| "iter_child_nodes (arg _ _ annotation _) = if_node annotation"
| "iter_child_nodes (arguments posonlyargs args vararg kwonlyargs kw_defaults kwarg defaults) =
     posonlyargs @ args @ if_node vararg @ kwonlyargs @ concat (map if_node kw_defaults)
       @ if_node kwarg @ defaults"
| "iter_child_nodes (FunctionDef _ _ args body decorator_list returns _) =
     [args] @ body @ decorator_list @ if_node returns"
| "iter_child_nodes (AsyncFunctionDef _ _ args body decorator_list returns _) =
     [args] @ body @ decorator_list @ if_node returns"
| "iter_child_nodes (Expr _ val) = [val]"
| "iter_child_nodes (Constant _ _ _) = []"
| "iter_child_nodes (Other _ _ _ children) = children"

text \<open>The measure under which the children of a node are smaller than the node.\<close>

definition weight :: "ast \<Rightarrow> nat" where
  "weight n = 2 * size n + 1"

lemma weight_if_node: "sum_list (map weight (if_node x)) \<le> 2 * size_option size x"
  by (cases x) (simp_all add: weight_def)

lemma weight_list: "sum_list (map weight xs) \<le> 2 * size_list size xs"
  by (induction xs) (simp_all add: weight_def)

lemma weight_opts:
  "sum_list (map weight (concat (map if_node xs))) \<le> 2 * size_list (size_option size) xs"
proof (induction xs)
  case Nil
  show ?case by simp
next
  case (Cons x xs)
  then show ?case using weight_if_node [of x] by simp
qed

lemma weight_children: "sum_list (map weight (iter_child_nodes n)) < weight n"
proof (cases n)
  case (arguments a b c d e f g)
  show ?thesis
    using weight_list [of a] weight_list [of b] weight_list [of d]
      weight_list [of g] weight_if_node [of c] weight_if_node [of f] weight_opts [of e]
    by (simp add: arguments) (simp add: weight_def)
next
  case (Module a b)
  show ?thesis using weight_list [of a] weight_list [of b]
    by (simp add: Module) (simp add: weight_def)
next
  case (Assign l a b c)
  show ?thesis using weight_list [of a] by (simp add: Assign) (simp add: weight_def)
next
  case (AnnAssign l a b c d)
  show ?thesis using weight_if_node [of c] by (simp add: AnnAssign) (simp add: weight_def)
next
  case (arg l a b c)
  show ?thesis using weight_if_node [of b] by (simp add: arg) (simp add: weight_def)
next
  case (FunctionDef l a b c d e f)
  show ?thesis using weight_list [of c] weight_list [of d] weight_if_node [of e]
    by (simp add: FunctionDef) (simp add: weight_def)
next
  case (AsyncFunctionDef l a b c d e f)
  show ?thesis using weight_list [of c] weight_list [of d] weight_if_node [of e]
    by (simp add: AsyncFunctionDef) (simp add: weight_def)
next
  case (Expr l a)
  show ?thesis by (simp add: Expr weight_def)
next
  case (Constant l a b)
  show ?thesis by (simp add: Constant weight_def)
next
  case (Other c l a b)
  show ?thesis using weight_list [of b] by (simp add: Other) (simp add: weight_def)
qed

text \<open>
  \<^verbatim>\<open>ast.walk\<close>: a queue that starts with the root; the first node is taken from the left,
  its children are appended on the right, and the node is yielded. Breadth first.
\<close>

function walk_todo :: "ast list \<Rightarrow> ast list" where
  "walk_todo [] = []"
| "walk_todo (node # todo) = node # walk_todo (todo @ iter_child_nodes node)"
  by pat_completeness auto
termination
  by (relation "measure (\<lambda>todo. sum_list (map weight todo))") (simp_all add: weight_children)

definition walk :: "ast \<Rightarrow> ast list" where
  "walk node = walk_todo [node]"

text \<open>
  The nodes of a tree by its structure alone (the node, then the nodes of each child):
  what "every node of the input" means, independently of the order of \<open>walk\<close>.
\<close>

function subtrees :: "ast \<Rightarrow> ast list" where
  "subtrees n = n # concat (map subtrees (iter_child_nodes n))"
  by pat_completeness auto
termination
proof (relation "measure weight")
  show "wf (measure weight)" by simp
next
  fix n x assume "x \<in> set (iter_child_nodes n)"
  then have "weight x \<le> sum_list (map weight (iter_child_nodes n))"
    by (simp add: member_le_sum_list)
  then show "(x, n) \<in> measure weight" using weight_children [of n] by simp
qed

declare subtrees.simps [simp del]

section \<open>The libraries the scanner calls\<close>

text \<open>
  \<^verbatim>\<open>ast.parse\<close>, \<^verbatim>\<open>astunparse.unparse\<close>, \<^verbatim>\<open>charset_normalizer.from_path\<close> and
  \<^verbatim>\<open>Path.glob\<close> are not part of the repository; they are parameters. \<open>ast_parse\<close> gives the
  tree of a text or the error raised; \<open>unparse\<close> gives the text of a node or the error
  raised; \<open>from_path\<close> stands for \<^verbatim>\<open>str(charset_normalizer.from_path(p).best())\<close>, the decoded
  text of a file, or the error raised when the file cannot be read; \<open>glob\<close> gives the
  paths under a folder that match a pattern, in the order the file system lists them.
\<close>

record 'p library =
  ast_parse :: "string \<Rightarrow> error + ast"
  unparse :: "ast \<Rightarrow> error + string"
  from_path :: "'p \<Rightarrow> error + string"
  glob :: "'p \<Rightarrow> string \<Rightarrow> 'p list"

section \<open>Tokens\<close>

text \<open>
  Python's \<^verbatim>\<open>str.strip()\<close> removes leading and trailing whitespace. A character is its code
  point; those below 256 are representable, and of these Python counts the following as
  whitespace.
\<close>

definition isspace :: "char \<Rightarrow> bool" where
  "isspace c \<longleftrightarrow>
     (of_char c :: nat) \<in> {0x09, 0x0A, 0x0B, 0x0C, 0x0D, 0x1C, 0x1D, 0x1E, 0x1F, 0x20, 0x85, 0xA0}"

definition strip :: "string \<Rightarrow> string" where
  "strip s = rev (dropWhile isspace (rev (dropWhile isspace s)))"

text \<open>
  The three token classes have the same four attributes. \<^verbatim>\<open>AnnotationItemBase.__init__\<close>
  reads \<^verbatim>\<open>node.lineno\<close> and \<^verbatim>\<open>node.end_lineno\<close>; the first raises on a node without
  location.
\<close>

record AnnotationItemBase =
  is_annotated :: bool
  annotated_text :: "string option"
  code :: string
  line_range :: "int \<times> int option"

fun location_of :: "ast \<Rightarrow> location option" where
  "location_of (Module _ _) = None"
| "location_of (Assign l _ _ _) = l"
| "location_of (AnnAssign l _ _ _ _) = l"
| "location_of (arg l _ _ _) = l"
| "location_of (arguments _ _ _ _ _ _ _) = None"
| "location_of (FunctionDef l _ _ _ _ _ _) = l"
| "location_of (AsyncFunctionDef l _ _ _ _ _ _) = l"
| "location_of (Expr l _) = l"
| "location_of (Constant l _ _) = l"
| "location_of (Other _ l _ _) = l"

definition AnnotationItemBase_init :: "ast \<Rightarrow> error + (int \<times> int option)" where
  "AnnotationItemBase_init node =
    (case location_of node of None \<Rightarrow> Inl AttributeError | Some l \<Rightarrow> Inr l)"

definition unparse_ast :: "'p library \<Rightarrow> ast \<Rightarrow> error + string" where
  "unparse_ast lib node = and_then (unparse lib node) (\<lambda>s. Inr (strip s))"

text \<open>\<^verbatim>\<open>Assignment.__init__\<close>.\<close>

definition Assignment :: "'p library \<Rightarrow> ast \<Rightarrow> error + AnnotationItemBase" where
  "Assignment lib node =
    and_then (AnnotationItemBase_init node) (\<lambda>range.
    and_then
      (case node of
         AnnAssign _ _ annotation _ _ \<Rightarrow>
           and_then (unparse_ast lib annotation) (\<lambda>txt. Inr (True, Some txt))
       | Assign _ _ _ _ \<Rightarrow> Inr (False, None)
       | _ \<Rightarrow> Inl TypeError) (\<lambda>(annotated, txt).
    and_then (unparse_ast lib node) (\<lambda>src.
    Inr \<lparr>is_annotated = annotated, annotated_text = txt, code = src, line_range = range\<rparr>)))"

text \<open>
  \<^verbatim>\<open>FunctionParameter.__init__\<close> reads \<^verbatim>\<open>node.annotation\<close>, an attribute of \<^verbatim>\<open>arg\<close> and of
  \<^verbatim>\<open>AnnAssign\<close> nodes only.
\<close>

fun get_annotation :: "ast \<Rightarrow> error + ast option" where
  "get_annotation (arg _ _ annotation _) = Inr annotation"
| "get_annotation (AnnAssign _ _ annotation _ _) = Inr (Some annotation)"
| "get_annotation _ = Inl AttributeError"

definition FunctionParameter :: "'p library \<Rightarrow> ast \<Rightarrow> error + AnnotationItemBase" where
  "FunctionParameter lib node =
    and_then (AnnotationItemBase_init node) (\<lambda>range.
    and_then (get_annotation node) (\<lambda>annotation.
    and_then
      (case annotation of
         None \<Rightarrow> Inr (None, False)
       | Some a \<Rightarrow> and_then (unparse_ast lib a) (\<lambda>txt. Inr (Some txt, True))) (\<lambda>(txt, annotated).
    and_then (unparse_ast lib node) (\<lambda>src.
    Inr \<lparr>is_annotated = annotated, annotated_text = txt, code = src, line_range = range\<rparr>))))"

text \<open>
  \<^verbatim>\<open>FunctionReturn.__init__\<close> reads \<^verbatim>\<open>node.returns\<close>, then builds a node of the same class
  from the name, the arguments, \<^verbatim>\<open>ast.Expr(ast.Constant(...))\<close> in the place of the body,
  the decorators, the return annotation and the type comment, and unparses that. The
  source passes the \<^verbatim>\<open>Expr\<close> node itself as the body, not a list holding it;
  \<^verbatim>\<open>astunparse\<close> writes a node and a list of one node alike, and the body is a list here.
\<close>

fun get_returns :: "ast \<Rightarrow> error + ast option" where
  "get_returns (FunctionDef _ _ _ _ _ returns _) = Inr returns"
| "get_returns (AsyncFunctionDef _ _ _ _ _ returns _) = Inr returns"
| "get_returns _ = Inl AttributeError"

definition placeholder :: ast where
  "placeholder = Expr None (Constant None Ellipsis None)"

fun bodyless_node :: "ast \<Rightarrow> error + ast" where
  "bodyless_node (FunctionDef _ name args _ decorator_list returns type_comment) =
     Inr (FunctionDef None name args [placeholder] decorator_list returns type_comment)"
| "bodyless_node (AsyncFunctionDef _ name args _ decorator_list returns type_comment) =
     Inr (AsyncFunctionDef None name args [placeholder] decorator_list returns type_comment)"
| "bodyless_node _ = Inl AttributeError"

definition FunctionReturn :: "'p library \<Rightarrow> ast \<Rightarrow> error + AnnotationItemBase" where
  "FunctionReturn lib node =
    and_then (AnnotationItemBase_init node) (\<lambda>range.
    and_then (get_returns node) (\<lambda>returns.
    and_then
      (case returns of
         None \<Rightarrow> Inr (None, False)
       | Some r \<Rightarrow> and_then (unparse_ast lib r) (\<lambda>txt. Inr (Some txt, True))) (\<lambda>(txt, annotated).
    and_then (bodyless_node node) (\<lambda>bodyless.
    and_then (unparse_ast lib bodyless) (\<lambda>src.
    Inr \<lparr>is_annotated = annotated, annotated_text = txt, code = src, line_range = range\<rparr>)))))"

section \<open>Scanning one text and one file\<close>

text \<open>
  \<^verbatim>\<open>AnnotationScanResult\<close> inherits the nine counters and the three token lists. Its
  constructor stores the lists and computes the counters from them
  (\<^verbatim>\<open>_init_compute_stats\<close>, \<^verbatim>\<open>_count_annotated\<close>).
\<close>

record AnnotationScanResult = AnnotationScanStatsBase +
  assignments :: "AnnotationItemBase list"
  func_params :: "AnnotationItemBase list"
  func_returns :: "AnnotationItemBase list"

definition count_annotated :: "AnnotationItemBase list \<Rightarrow> int" where
  "count_annotated anno_items =
     int (length (map (\<lambda>item. True) (filter is_annotated anno_items)))"

definition AnnotationScanResult_init ::
  "AnnotationItemBase list \<Rightarrow> AnnotationItemBase list \<Rightarrow> AnnotationItemBase list \<Rightarrow>
   AnnotationScanResult"
where
  "AnnotationScanResult_init assigns params returns =
    (let total_assignments = int (length assigns);
         annotated_assignments = count_annotated assigns;
         unannotated_assignments = total_assignments - annotated_assignments;
         total_func_params = int (length params);
         annotated_func_params = count_annotated params;
         unannotated_func_params = total_func_params - annotated_func_params;
         total_func_returns = int (length returns);
         annotated_func_returns = count_annotated returns;
         unannotated_func_returns = total_func_returns - annotated_func_returns
     in \<lparr>total_assign_count = total_assignments,
         annotated_assign_count = annotated_assignments,
         unannotated_assign_count = unannotated_assignments,
         total_func_params_count = total_func_params,
         annotated_func_params_count = annotated_func_params,
         unannotated_func_params_count = unannotated_func_params,
         total_func_returns_count = total_func_returns,
         annotated_func_returns_count = annotated_func_returns,
         unannotated_func_returns_count = unannotated_func_returns,
         assignments = assigns, func_params = params, func_returns = returns\<rparr>)"

text \<open>The three \<^verbatim>\<open>isinstance\<close> tests of \<^verbatim>\<open>scan_text\<close>.\<close>

fun is_assign_node :: "ast \<Rightarrow> bool" where
  "is_assign_node (AnnAssign _ _ _ _ _) = True"
| "is_assign_node (Assign _ _ _ _) = True"
| "is_assign_node _ = False"

fun is_arg_node :: "ast \<Rightarrow> bool" where
  "is_arg_node (arg _ _ _ _) = True"
| "is_arg_node _ = False"

fun is_function_node :: "ast \<Rightarrow> bool" where
  "is_function_node (FunctionDef _ _ _ _ _ _ _) = True"
| "is_function_node (AsyncFunctionDef _ _ _ _ _ _ _) = True"
| "is_function_node _ = False"

text \<open>
  The body of the loop of \<^verbatim>\<open>scan_text\<close>: three independent tests, each appending a token
  to its list; an exception raised by a token constructor leaves the loop.
\<close>

type_synonym token_lists =
  "AnnotationItemBase list \<times> AnnotationItemBase list \<times> AnnotationItemBase list"

definition append_if ::
  "bool \<Rightarrow> error + AnnotationItemBase \<Rightarrow> AnnotationItemBase list \<Rightarrow>
   error + AnnotationItemBase list"
where
  "append_if test item items =
     (if test then and_then item (\<lambda>i. Inr (items @ [i])) else Inr items)"

definition scan_node :: "'p library \<Rightarrow> ast \<Rightarrow> token_lists \<Rightarrow> error + token_lists" where
  "scan_node lib node = (\<lambda>(assigns, params, returns).
     and_then (append_if (is_assign_node node) (Assignment lib node) assigns) (\<lambda>assigns'.
     and_then (append_if (is_arg_node node) (FunctionParameter lib node) params) (\<lambda>params'.
     and_then (append_if (is_function_node node) (FunctionReturn lib node) returns) (\<lambda>returns'.
     Inr (assigns', params', returns')))))"

fun scan_nodes :: "'p library \<Rightarrow> ast list \<Rightarrow> token_lists \<Rightarrow> error + token_lists" where
  "scan_nodes lib [] acc = Inr acc"
| "scan_nodes lib (node # nodes) acc = and_then (scan_node lib node acc) (scan_nodes lib nodes)"

definition scan_tree :: "'p library \<Rightarrow> ast \<Rightarrow> error + AnnotationScanResult" where
  "scan_tree lib tree =
     and_then (scan_nodes lib (walk tree) ([], [], [])) (\<lambda>(assigns, params, returns).
     Inr (AnnotationScanResult_init assigns params returns))"

definition scan_text :: "'p library \<Rightarrow> string \<Rightarrow> error + AnnotationScanResult" where
  "scan_text lib text = and_then (ast_parse lib text) (scan_tree lib)"

definition scan_file :: "'p library \<Rightarrow> 'p \<Rightarrow> error + AnnotationScanResult" where
  "scan_file lib path = and_then (from_path lib path) (scan_text lib)"

section \<open>The accumulator object and the generator of scan\_files\<close>

text \<open>
  \<^verbatim>\<open>__add__\<close> changes its left operand and returns it, so what \<^verbatim>\<open>scan_files\<close> yields is a
  reference. The store holds the \<^verbatim>\<open>AnnotationScanGroupResult\<close> objects made so far; an
  address is an index into it. \<open>add_in_place\<close> is \<^verbatim>\<open>__add__\<close>: it returns the address it
  was given, with the store in which the object at that address has been added to. The
  right operand is only read.
\<close>

type_synonym addr = nat
type_synonym store = "AnnotationScanGroupResult list"

definition deref :: "store \<Rightarrow> addr \<Rightarrow> AnnotationScanGroupResult option" where
  "deref st a = (if a < length st then Some (st ! a) else None)"

definition new_AnnotationScanGroupResult :: "store \<Rightarrow> addr \<times> store" where
  "new_AnnotationScanGroupResult st = (length st, st @ [AnnotationScanGroupResult_init])"

definition add_in_place ::
  "store \<Rightarrow> addr \<Rightarrow> 'b AnnotationScanStatsBase_scheme \<Rightarrow> addr \<times> store"
where
  "add_in_place st self result = (self, st[self := add_result (st ! self) result])"

text \<open>
  A generator object is created by the call of \<^verbatim>\<open>scan_files\<close>, which runs nothing; each
  \<^verbatim>\<open>next\<close> runs the body up to the next \<^verbatim>\<open>yield\<close>, to the end (\<^verbatim>\<open>StopIteration\<close>) or to an
  exception, which closes the generator. A suspended generator holds its local variables:
  the reference \<^verbatim>\<open>result\<close> and the paths still to visit.
\<close>

datatype 'p generator = Created "'p list" | Suspended addr "'p list" | Closed

datatype 'p step = Yield addr 'p AnnotationScanResult | StopIteration | Raise error

definition scan_files :: "'p list \<Rightarrow> 'p generator" where
  "scan_files paths = Created paths"

fun scan_files_loop ::
  "'p library \<Rightarrow> store \<Rightarrow> addr \<Rightarrow> 'p list \<Rightarrow> 'p step \<times> store \<times> 'p generator"
where
  "scan_files_loop lib st result [] = (StopIteration, st, Closed)"
| "scan_files_loop lib st result (file_path # paths) =
     (case scan_file lib file_path of
        Inl e \<Rightarrow> (Raise e, st, Closed)
      | Inr file_result \<Rightarrow>
          (let (result', st') = add_in_place st result file_result
           in (Yield result' file_path file_result, st', Suspended result' paths)))"

fun gen_next ::
  "'p library \<Rightarrow> store \<Rightarrow> 'p generator \<Rightarrow> 'p step \<times> store \<times> 'p generator"
where
  "gen_next lib st (Created paths) =
     (let (result, st') = new_AnnotationScanGroupResult st
      in scan_files_loop lib st' result paths)"
| "gen_next lib st (Suspended result paths) = scan_files_loop lib st result paths"
| "gen_next lib st Closed = (StopIteration, st, Closed)"

text \<open>
  A caller that runs the generator to its end, as \<^verbatim>\<open>for summary, file, file_res in gen\<close>
  does: the triples in the order they were yielded, each with the store as it was at that
  moment, the exception that ended the iteration if one did, and the final store.
\<close>

record 'p yielded =
  summary :: addr
  file_path :: 'p
  file_result :: AnnotationScanResult
  store_then :: store

fun remaining :: "'p generator \<Rightarrow> nat" where
  "remaining (Created paths) = Suc (length paths)"
| "remaining (Suspended _ paths) = length paths"
| "remaining Closed = 0"

lemma scan_files_loop_remaining:
  "scan_files_loop lib st a paths = (Yield a' p r, st', g') \<Longrightarrow> remaining g' < Suc (length paths)"
  by (cases paths) (auto simp: add_in_place_def split: sum.splits)

lemma gen_next_remaining:
  "gen_next lib st g = (Yield a p r, st', g') \<Longrightarrow> remaining g' < remaining g"
proof (cases g)
  case (Created paths)
  assume "gen_next lib st g = (Yield a p r, st', g')"
  with Created show ?thesis
    using scan_files_loop_remaining [of lib _ _ paths]
    by (auto simp: new_AnnotationScanGroupResult_def less_Suc_eq)
next
  case (Suspended res paths)
  assume "gen_next lib st g = (Yield a p r, st', g')"
  with Suspended show ?thesis
    by (cases paths) (auto simp: add_in_place_def split: sum.splits)
next
  case Closed
  assume "gen_next lib st g = (Yield a p r, st', g')"
  with Closed show ?thesis by simp
qed

function consume ::
  "'p library \<Rightarrow> store \<Rightarrow> 'p generator \<Rightarrow> 'p yielded list \<times> error option \<times> store"
where
  "consume lib st g =
     (case gen_next lib st g of
        (Yield a p r, st', g') \<Rightarrow>
          (let (ys, e, st'') = consume lib st' g'
           in (\<lparr>summary = a, file_path = p, file_result = r, store_then = st'\<rparr> # ys, e, st''))
      | (StopIteration, st', g') \<Rightarrow> ([], None, st')
      | (Raise e, st', g') \<Rightarrow> ([], Some e, st'))"
  by pat_completeness auto
termination
  by (relation "measure (\<lambda>(lib, st, g). remaining g)") (auto dest: gen_next_remaining [OF sym])

declare consume.simps [simp del]

section \<open>Walking a folder\<close>

text \<open>
  \<^verbatim>\<open>natsort.humansorted\<close>, which \<^verbatim>\<open>scan_folder\<close> calls, is a function of a library, not of
  the repository. The definitions follow what the library computes for paths of ASCII
  characters when the collation locale is the one a Python process starts with
  (\<^verbatim>\<open>scan_annotations.py\<close> never sets a locale): the case of every letter of the path is
  swapped, the path is split at its runs of digits, each run of digits becomes its value,
  and each run of text goes through \<^verbatim>\<open>groupletters\<close>. Keys compare as Python tuples do,
  element by element, text by character codes, a key that ends before another coming first.
  The sort is stable, as Python's is. Characters beyond ASCII are left as they are by the
  case functions here.
\<close>

definition isdigit :: "char \<Rightarrow> bool" where
  "isdigit c \<longleftrightarrow> 48 \<le> (of_char c :: nat) \<and> (of_char c :: nat) \<le> 57"

definition isupper :: "char \<Rightarrow> bool" where
  "isupper c \<longleftrightarrow> 65 \<le> (of_char c :: nat) \<and> (of_char c :: nat) \<le> 90"

definition islower :: "char \<Rightarrow> bool" where
  "islower c \<longleftrightarrow> 97 \<le> (of_char c :: nat) \<and> (of_char c :: nat) \<le> 122"

definition lower :: "char \<Rightarrow> char" where
  "lower c = (if isupper c then char_of ((of_char c :: nat) + 32) else c)"

definition swapcase :: "char \<Rightarrow> char" where
  "swapcase c =
     (if isupper c then char_of ((of_char c :: nat) + 32)
      else if islower c then char_of ((of_char c :: nat) - 32)
      else c)"

text \<open>
  \<^verbatim>\<open>groupletters\<close> of the library doubles every character, the first of the two in lower case.
\<close>

definition groupletters :: "string \<Rightarrow> string" where
  "groupletters x = concat (map (\<lambda>y. [lower y, y]) x)"

text \<open>
  The split at runs of digits: each run of text without digits with the value of the run of
  digits after it, if there is one. A path that starts with a digit has the empty text first.
\<close>

definition digits_value :: "string \<Rightarrow> nat" where
  "digits_value ds = foldl (\<lambda>v c. 10 * v + ((of_char c :: nat) - 48)) 0 ds"

function split_numbers :: "string \<Rightarrow> (string \<times> nat option) list" where
  "split_numbers s =
     (if s = [] then []
      else
        let txt = takeWhile (\<lambda>c. \<not> isdigit c) s;
            rest = dropWhile (\<lambda>c. \<not> isdigit c) s;
            digits = takeWhile isdigit rest;
            rest' = dropWhile isdigit rest
        in (txt, if digits = [] then None else Some (digits_value digits))
             # split_numbers rest')"
  by pat_completeness auto
termination
proof (relation "measure length")
  show "wf (measure length)" by simp
next
  fix s :: string and rest rest'
  assume s: "s \<noteq> []"
    and rest: "rest = dropWhile (\<lambda>c. \<not> isdigit c) s"
    and rest': "rest' = dropWhile isdigit rest"
  obtain c cs where cs: "s = c # cs" using s by (cases s) auto
  have "length rest' \<le> length cs"
  proof (cases "isdigit c")
    case True
    then have "rest' = dropWhile isdigit cs" using rest rest' cs by simp
    then show ?thesis by (simp add: length_dropWhile_le)
  next
    case False
    then have "rest = dropWhile (\<lambda>c. \<not> isdigit c) cs" using rest cs by simp
    then have "length rest \<le> length cs" by (simp add: length_dropWhile_le)
    moreover have "length rest' \<le> length rest" using rest' by (simp add: length_dropWhile_le)
    ultimately show ?thesis by simp
  qed
  then show "(rest', s) \<in> measure length" using cs by simp
qed

declare split_numbers.simps [simp del]

definition natsort_key :: "string \<Rightarrow> (string \<times> nat option) list" where
  "natsort_key s =
     map (\<lambda>(txt, num). (groupletters txt, num)) (split_numbers (map swapcase s))"

definition humansorted :: "string list \<Rightarrow> string list" where
  "humansorted paths = sort_key natsort_key paths"



text \<open>
  \<^verbatim>\<open>scan_folder\<close>. A path is a string; the conversion of a \<^verbatim>\<open>str\<close> argument to a \<^verbatim>\<open>Path\<close>
  changes nothing here. \<open>None\<close> is Python's \<^verbatim>\<open>None\<close>.
\<close>

definition default_glob :: string where
  "default_glob = ''**/*.py''"

definition scan_folder :: "string library \<Rightarrow> string \<Rightarrow> string \<Rightarrow> string generator option" where
  "scan_folder lib folder_path pattern =
     (let file_paths = humansorted (glob lib folder_path pattern)
      in if length file_paths = 0 then None else Some (scan_files file_paths))"

section \<open>Example inputs\<close>

text \<open>
  Concrete inputs on which the theorems below are instantiated. The trees are what
  \<^verbatim>\<open>ast.parse\<close> returns for the texts \<^verbatim>\<open>a = 1\<close>, \<^verbatim>\<open>b: int = 2 + 2\<close>,
  \<^verbatim>\<open>def foo(bar) -> None:\<close> with the body \<^verbatim>\<open>print(bar + 2)\<close> on the next line,
  \<^verbatim>\<open>a = b = 1\<close>, \<^verbatim>\<open>a, b = 1, 2\<close> and \<^verbatim>\<open>x: int\<close>. The example library parses these texts
  and no other, gives for the nodes that the scanner unparses in these trees the text that
  \<^verbatim>\<open>astunparse\<close> writes for them and has no text for any other node, and knows five files
  and three folders that hold files.
\<close>

definition newline :: string where
  "newline = [CHR 0x0A]"

definition ex_Name :: "string \<Rightarrow> string \<Rightarrow> ast" where
  "ex_Name ident ctx = Other ''Name'' (Some (1, Some 1)) [ident] [Other ctx None [] []]"

definition ex_Num :: "int \<Rightarrow> ast" where
  "ex_Num n = Constant (Some (1, Some 1)) (ConstInt n) None"

definition ex_None :: ast where
  "ex_None = Constant (Some (1, Some 1)) ConstNone None"

definition stmt_plain :: ast where
  "stmt_plain = Assign (Some (1, Some 1)) [ex_Name ''a'' ''Store''] (ex_Num 1) None"

definition stmt_annotated :: ast where
  "stmt_annotated =
     AnnAssign (Some (1, Some 1)) (ex_Name ''b'' ''Store'') (ex_Name ''int'' ''Load'')
       (Some (Other ''BinOp'' (Some (1, Some 1)) [] [ex_Num 2, Other ''Add'' None [] [], ex_Num 2]))
       1"

definition arg_bar :: ast where
  "arg_bar = arg (Some (1, Some 1)) ''bar'' None None"

definition args_foo :: ast where
  "args_foo = arguments [] [arg_bar] None [] [] None []"

definition body_foo :: "ast list" where
  "body_foo =
     [Expr (Some (2, Some 2))
        (Other ''Call'' (Some (2, Some 2)) []
           [Other ''Name'' (Some (2, Some 2)) [''print''] [Other ''Load'' None [] []],
            Other ''BinOp'' (Some (2, Some 2)) []
              [Other ''Name'' (Some (2, Some 2)) [''bar''] [Other ''Load'' None [] []],
               Other ''Add'' None [] [],
               Constant (Some (2, Some 2)) (ConstInt 2) None]])]"

definition stmt_foo :: ast where
  "stmt_foo = FunctionDef (Some (1, Some 2)) ''foo'' args_foo body_foo [] (Some ex_None) None"

definition stmt_chained :: ast where
  "stmt_chained =
     Assign (Some (1, Some 1)) [ex_Name ''a'' ''Store'', ex_Name ''b'' ''Store''] (ex_Num 1) None"

definition stmt_unpacking :: ast where
  "stmt_unpacking =
     Assign (Some (1, Some 1))
       [Other ''Tuple'' (Some (1, Some 1)) []
          [ex_Name ''a'' ''Store'', ex_Name ''b'' ''Store'', Other ''Store'' None [] []]]
       (Other ''Tuple'' (Some (1, Some 1)) [] [ex_Num 1, ex_Num 2, Other ''Load'' None [] []])
       None"

definition stmt_declaration :: ast where
  "stmt_declaration =
     AnnAssign (Some (1, Some 1)) (ex_Name ''x'' ''Store'') (ex_Name ''int'' ''Load'') None 1"

definition tree_plain :: ast where
  "tree_plain = Module [stmt_plain] []"

definition tree_annotated :: ast where
  "tree_annotated = Module [stmt_annotated] []"

definition tree_foo :: ast where
  "tree_foo = Module [stmt_foo] []"

definition tree_chained :: ast where
  "tree_chained = Module [stmt_chained] []"

definition tree_unpacking :: ast where
  "tree_unpacking = Module [stmt_unpacking] []"

definition tree_declaration :: ast where
  "tree_declaration = Module [stmt_declaration] []"

definition text_foo :: string where
  "text_foo = ''def foo(bar) -> None:'' @ newline @ ''    print(bar + 2)''"

definition example_parse :: "string \<Rightarrow> error + ast" where
  "example_parse text =
     (if text = ''a = 1'' then Inr tree_plain
      else if text = ''b: int = 2 + 2'' then Inr tree_annotated
      else if text = text_foo then Inr tree_foo
      else if text = ''a = b = 1'' then Inr tree_chained
      else if text = ''a, b = 1, 2'' then Inr tree_unpacking
      else if text = ''x: int'' then Inr tree_declaration
      else Inl SyntaxError)"

definition example_unparse :: "ast \<Rightarrow> error + string" where
  "example_unparse node =
     (if node = ex_Name ''int'' ''Load'' then Inr (''int'' @ newline)
      else if node = ex_None then Inr (''None'' @ newline)
      else if node = arg_bar then Inr (''bar'' @ newline)
      else if node = stmt_plain then Inr (newline @ ''a = 1'' @ newline)
      else if node = stmt_annotated then Inr (newline @ ''b: int = (2 + 2)'' @ newline)
      else if node = stmt_chained then Inr (newline @ ''a = b = 1'' @ newline)
      else if node = stmt_unpacking then Inr (newline @ ''(a, b) = (1, 2)'' @ newline)
      else if node = stmt_declaration then Inr (newline @ ''x: int'' @ newline)
      else if node = FunctionDef None ''foo'' args_foo [placeholder] [] (Some ex_None) None
        then Inr (newline @ newline @ ''def foo(bar) -> None:'' @ newline @ ''    ...''
                    @ newline)
      else Inl (OtherError ''no text for this node''))"

definition example_from_path :: "string \<Rightarrow> error + string" where
  "example_from_path path =
     (if path = ''f1.py'' then Inr ''a = 1''
      else if path = ''f2.py'' then Inr ''b: int = 2 + 2''
      else if path = ''f10.py'' then Inr ''a = b = 1''
      else if path = ''f1_bad.py'' then Inr ''def broken(''
      else if path = ''F2.py'' then Inr ''x: int''
      else Inl OSError)"

definition example_glob :: "string \<Rightarrow> string \<Rightarrow> string list" where
  "example_glob folder pattern =
     (if folder = ''repo'' then [''f2.py'', ''f10.py'', ''f1.py'']
      else if folder = ''broken'' then [''f1.py'', ''f1_bad.py'', ''f2.py'']
      else if folder = ''mixed'' then [''F2.py'', ''f10.py'', ''f1.py'']
      else [])"

definition example_library :: "string library" where
  "example_library =
     \<lparr>ast_parse = example_parse, unparse = example_unparse, from_path = example_from_path,
      glob = example_glob\<rparr>"

definition example_stats :: "int \<Rightarrow> int \<Rightarrow> AnnotationScanStatsBase" where
  "example_stats t a =
    \<lparr>total_assign_count = t, annotated_assign_count = a, unannotated_assign_count = t - a,
     total_func_params_count = 2 * t, annotated_func_params_count = t,
     unannotated_func_params_count = t,
     total_func_returns_count = 1, annotated_func_returns_count = 0,
     unannotated_func_returns_count = 1\<rparr>"

section \<open>Notions used to state the properties\<close>

text \<open>
  \<open>tokens_of test build nodes items\<close>: the items are the tokens that the constructor
  \<open>build\<close> makes from the nodes that pass \<open>test\<close>, one token for each such node, in the
  order of the nodes.
\<close>

definition tokens_of ::
  "(ast \<Rightarrow> bool) \<Rightarrow> (ast \<Rightarrow> error + AnnotationItemBase) \<Rightarrow> ast list \<Rightarrow>
   AnnotationItemBase list \<Rightarrow> bool"
where
  "tokens_of test build nodes items = list_all2 (\<lambda>n t. build n = Inr t) (filter test nodes) items"

fun is_AnnAssign :: "ast \<Rightarrow> bool" where
  "is_AnnAssign (AnnAssign _ _ _ _ _) = True"
| "is_AnnAssign _ = False"

text \<open>
  Of a function definition: its signature (name, parameters, return annotation), its body,
  and the same definition with another body.
\<close>

fun function_signature :: "ast \<Rightarrow> (string \<times> ast \<times> ast option) option" where
  "function_signature (FunctionDef _ name args _ _ returns _) = Some (name, args, returns)"
| "function_signature (AsyncFunctionDef _ name args _ _ returns _) = Some (name, args, returns)"
| "function_signature _ = None"

fun function_body :: "ast \<Rightarrow> ast list" where
  "function_body (FunctionDef _ _ _ body _ _ _) = body"
| "function_body (AsyncFunctionDef _ _ _ body _ _ _) = body"
| "function_body _ = []"

fun with_body :: "ast list \<Rightarrow> ast \<Rightarrow> ast" where
  "with_body body (FunctionDef l name args _ decorator_list returns type_comment) =
     FunctionDef l name args body decorator_list returns type_comment"
| "with_body body (AsyncFunctionDef l name args _ decorator_list returns type_comment) =
     AsyncFunctionDef l name args body decorator_list returns type_comment"
| "with_body body node = node"

text \<open>
  In the words of the specification, a node is an Assignment "if it binds one or more names
  to a value": an assignment statement with at least one target, or an annotated assignment
  that has a value. An annotation without a value, as \<^verbatim>\<open>x: int\<close>, binds nothing.
\<close>

fun binds_names_to_value :: "ast \<Rightarrow> bool" where
  "binds_names_to_value (Assign _ targets _ _) = (targets \<noteq> [])"
| "binds_names_to_value (AnnAssign _ _ _ val _) = (val \<noteq> None)"
| "binds_names_to_value _ = False"

text \<open>
  Whether the scan of a file returns, and the exception of the first file of a sequence
  whose scan raises.
\<close>

definition scans_ok :: "'p library \<Rightarrow> 'p \<Rightarrow> bool" where
  "scans_ok lib path = (case scan_file lib path of Inl e \<Rightarrow> False | Inr r \<Rightarrow> True)"

definition first_error :: "'p library \<Rightarrow> 'p list \<Rightarrow> error option" where
  "first_error lib paths =
     (case dropWhile (scans_ok lib) paths of
        [] \<Rightarrow> None
      | path # rest \<Rightarrow> (case scan_file lib path of Inl e \<Rightarrow> Some e | Inr r \<Rightarrow> None))"

section \<open>Results on the example inputs\<close>

definition token_plain :: AnnotationItemBase where
  "token_plain =
     \<lparr>is_annotated = False, annotated_text = None, code = ''a = 1'',
      line_range = (1, Some 1)\<rparr>"

definition token_annotated :: AnnotationItemBase where
  "token_annotated =
     \<lparr>is_annotated = True, annotated_text = Some ''int'', code = ''b: int = (2 + 2)'',
      line_range = (1, Some 1)\<rparr>"

definition token_chained :: AnnotationItemBase where
  "token_chained =
     \<lparr>is_annotated = False, annotated_text = None, code = ''a = b = 1'',
      line_range = (1, Some 1)\<rparr>"

definition token_unpacking :: AnnotationItemBase where
  "token_unpacking =
     \<lparr>is_annotated = False, annotated_text = None, code = ''(a, b) = (1, 2)'',
      line_range = (1, Some 1)\<rparr>"

definition token_declaration :: AnnotationItemBase where
  "token_declaration =
     \<lparr>is_annotated = True, annotated_text = Some ''int'', code = ''x: int'',
      line_range = (1, Some 1)\<rparr>"

definition token_bar :: AnnotationItemBase where
  "token_bar =
     \<lparr>is_annotated = False, annotated_text = None, code = ''bar'',
      line_range = (1, Some 1)\<rparr>"

definition token_foo :: AnnotationItemBase where
  "token_foo =
     \<lparr>is_annotated = True, annotated_text = Some ''None'',
      code = ''def foo(bar) -> None:'' @ newline @ ''    ...'',
      line_range = (1, Some 2)\<rparr>"

definition result_plain :: AnnotationScanResult where
  "result_plain = AnnotationScanResult_init [token_plain] [] []"

definition result_annotated :: AnnotationScanResult where
  "result_annotated = AnnotationScanResult_init [token_annotated] [] []"

definition result_chained :: AnnotationScanResult where
  "result_chained = AnnotationScanResult_init [token_chained] [] []"

definition result_unpacking :: AnnotationScanResult where
  "result_unpacking = AnnotationScanResult_init [token_unpacking] [] []"

definition result_declaration :: AnnotationScanResult where
  "result_declaration = AnnotationScanResult_init [token_declaration] [] []"

definition result_foo :: AnnotationScanResult where
  "result_foo = AnnotationScanResult_init [] [token_bar] [token_foo]"

definition example_paths :: "string list" where
  "example_paths = [''f1.py'', ''f1_bad.py'', ''f2.py'']"

definition good_paths :: "string list" where
  "good_paths = [''f1.py'', ''f2.py'', ''f10.py'']"

definition total_after_first :: AnnotationScanGroupResult where
  "total_after_first =
    \<lparr>total_assign_count = 1, annotated_assign_count = 0, unannotated_assign_count = 1,
     total_func_params_count = 0, annotated_func_params_count = 0,
     unannotated_func_params_count = 0,
     total_func_returns_count = 0, annotated_func_returns_count = 0,
     unannotated_func_returns_count = 0\<rparr>"

definition total_after_last :: AnnotationScanGroupResult where
  "total_after_last =
    \<lparr>total_assign_count = 3, annotated_assign_count = 1, unannotated_assign_count = 2,
     total_func_params_count = 0, annotated_func_params_count = 0,
     unannotated_func_params_count = 0,
     total_func_returns_count = 0, annotated_func_returns_count = 0,
     unannotated_func_returns_count = 0\<rparr>"

section \<open>The combine operation is a commutative monoid\<close>

lemma add_result_pointwise:
  "add_result a b =
    \<lparr>total_assign_count = total_assign_count a + total_assign_count b,
     annotated_assign_count = annotated_assign_count a + annotated_assign_count b,
     unannotated_assign_count = unannotated_assign_count a + unannotated_assign_count b,
     total_func_params_count = total_func_params_count a + total_func_params_count b,
     annotated_func_params_count = annotated_func_params_count a + annotated_func_params_count b,
     unannotated_func_params_count =
       unannotated_func_params_count a + unannotated_func_params_count b,
     total_func_returns_count = total_func_returns_count a + total_func_returns_count b,
     annotated_func_returns_count =
       annotated_func_returns_count a + annotated_func_returns_count b,
     unannotated_func_returns_count =
       unannotated_func_returns_count a + unannotated_func_returns_count b\<rparr>"
  by (simp add: add_result_def dataclass_fields_def add_field_def)

lemma getattr_add_result:
  "getattr (add_result a b) f = getattr a f + getattr b f"
  by (cases f) (simp_all add: add_result_pointwise)

lemma getattr_counters: "getattr (counters s) f = getattr s f"
  by (cases f) (simp_all add: counters_def AnnotationScanStatsBase.truncate_def)

lemma stats_eqI:
  fixes a b :: AnnotationScanStatsBase
  assumes "\<And>f. getattr a f = getattr b f"
  shows "a = b"
proof -
  have "total_assign_count a = total_assign_count b"
    using assms [of F_total_assign_count] by simp
  moreover have "annotated_assign_count a = annotated_assign_count b"
    using assms [of F_annotated_assign_count] by simp
  moreover have "unannotated_assign_count a = unannotated_assign_count b"
    using assms [of F_unannotated_assign_count] by simp
  moreover have "total_func_params_count a = total_func_params_count b"
    using assms [of F_total_func_params_count] by simp
  moreover have "annotated_func_params_count a = annotated_func_params_count b"
    using assms [of F_annotated_func_params_count] by simp
  moreover have "unannotated_func_params_count a = unannotated_func_params_count b"
    using assms [of F_unannotated_func_params_count] by simp
  moreover have "total_func_returns_count a = total_func_returns_count b"
    using assms [of F_total_func_returns_count] by simp
  moreover have "annotated_func_returns_count a = annotated_func_returns_count b"
    using assms [of F_annotated_func_returns_count] by simp
  moreover have "unannotated_func_returns_count a = unannotated_func_returns_count b"
    using assms [of F_unannotated_func_returns_count] by simp
  ultimately show ?thesis by simp
qed

lemma getattr_init: "getattr AnnotationScanGroupResult_init f = 0"
  by (cases f) (simp_all add: AnnotationScanGroupResult_init_def)

lemma getattr_fold_results:
  "getattr (fold_results acc rs) f = getattr acc f + sum_list (map (\<lambda>r. getattr r f) rs)"
  unfolding fold_results_def
  by (induction rs arbitrary: acc) (simp_all add: getattr_add_result)

lemma getattr_batch_sum:
  "getattr (batch_sum rs) f = sum_list (map (\<lambda>r. getattr r f) rs)"
  by (simp add: batch_sum_def getattr_fold_results getattr_init)

lemma sum_list_batches:
  "sum_list (map (\<lambda>b. getattr (batch_sum b) f) bs) =
   sum_list (map (\<lambda>r. getattr r f) (concat bs))"
  by (induction bs) (simp_all add: getattr_batch_sum)

lemma sum_list_getattr_mset:
  assumes "mset xs = mset ys"
  shows "sum_list (map (\<lambda>r. getattr r f) xs) = sum_list (map (\<lambda>r. getattr r f) ys)"
proof -
  have "mset (map (\<lambda>r. getattr r f) xs) = mset (map (\<lambda>r. getattr r f) ys)"
    using assms by (metis mset_map)
  then show ?thesis
    by (metis sum_mset_sum_list)
qed


lemma add_result_init_left: "add_result AnnotationScanGroupResult_init x = counters x"
  by (rule stats_eqI) (simp add: getattr_add_result getattr_init getattr_counters)

lemma add_result_commute:
  fixes a b :: AnnotationScanGroupResult
  shows "add_result a b = add_result b a"
  by (rule stats_eqI) (simp add: getattr_add_result)

lemma add_result_assoc:
  fixes a :: AnnotationScanGroupResult
  shows "add_result (add_result a b) c = add_result a (add_result b c)"
  by (rule stats_eqI) (simp add: getattr_add_result)

lemma fold_batches_eq:
  assumes "mset (concat bs) = mset xs"
  shows "fold_results AnnotationScanGroupResult_init (map batch_sum bs) = batch_sum xs"
proof (rule stats_eqI)
  fix f
  have "getattr (fold_results AnnotationScanGroupResult_init (map batch_sum bs)) f =
        sum_list (map (\<lambda>b. getattr (batch_sum b) f) bs)"
    by (simp add: getattr_fold_results getattr_init comp_def)
  also have "\<dots> = sum_list (map (\<lambda>r. getattr r f) (concat bs))"
    by (rule sum_list_batches)
  also have "\<dots> = sum_list (map (\<lambda>r. getattr r f) xs)"
    using assms by (rule sum_list_getattr_mset)
  also have "\<dots> = getattr (batch_sum xs) f"
    by (simp add: getattr_batch_sum)
  finally show "getattr (fold_results AnnotationScanGroupResult_init (map batch_sum bs)) f =
                getattr (batch_sum xs) f" .
qed

text \<open>
  Claim C1. A fresh \<^verbatim>\<open>AnnotationScanGroupResult\<close> has its nine counters zero; adding any
  statistics record \<open>x\<close> to it gives the counters of \<open>x\<close>; adding is the integer sum
  counter by counter, commutative and associative; and for any files \<open>xs\<close> and any batches
  \<open>bs\<close> that hold the same files (as a multiset, in any order and grouping), adding up
  the sums of the batches gives the same nine counters as adding up the files one by one.
\<close>

theorem combine_commutative_monoid:
  fixes a b c :: AnnotationScanGroupResult
    and x :: "'b AnnotationScanStatsBase_scheme"
    and xs :: "'b AnnotationScanStatsBase_scheme list"
  shows "(\<forall>f. getattr AnnotationScanGroupResult_init f = 0)
    \<and> add_result AnnotationScanGroupResult_init x = counters x
    \<and> (\<forall>f. getattr (add_result a x) f = getattr a f + getattr x f)
    \<and> add_result a b = add_result b a
    \<and> add_result (add_result a b) c = add_result a (add_result b c)
    \<and> (mset (concat bs) = mset xs \<longrightarrow>
         fold_results AnnotationScanGroupResult_init (map batch_sum bs) = batch_sum xs)"
  using add_result_init_left [of x] add_result_commute [of a b] add_result_assoc [of a b c]
    fold_batches_eq [of bs xs]
  by (simp add: getattr_init getattr_add_result)

theorem combine_commutative_monoid_witness:
  "mset (concat [[example_stats 7 5], [example_stats 3 1, example_stats 4 4]]) =
     mset [example_stats 3 1, example_stats 4 4, example_stats 7 5]
   \<and> fold_results AnnotationScanGroupResult_init
        (map batch_sum [[example_stats 7 5], [example_stats 3 1, example_stats 4 4]]) =
      batch_sum [example_stats 3 1, example_stats 4 4, example_stats 7 5]
   \<and> batch_sum [example_stats 3 1, example_stats 4 4, example_stats 7 5] =
      \<lparr>total_assign_count = 14, annotated_assign_count = 10, unannotated_assign_count = 4,
       total_func_params_count = 28, annotated_func_params_count = 14,
       unannotated_func_params_count = 14,
       total_func_returns_count = 3, annotated_func_returns_count = 0,
       unannotated_func_returns_count = 3\<rparr>"
proof -
  have m: "mset (concat [[example_stats 7 5], [example_stats 3 1, example_stats 4 4]]) =
     mset [example_stats 3 1, example_stats 4 4, example_stats 7 5]"
    by simp
  have v: "batch_sum [example_stats 3 1, example_stats 4 4, example_stats 7 5] =
      \<lparr>total_assign_count = 14, annotated_assign_count = 10, unannotated_assign_count = 4,
       total_func_params_count = 28, annotated_func_params_count = 14,
       unannotated_func_params_count = 14,
       total_func_returns_count = 3, annotated_func_returns_count = 0,
       unannotated_func_returns_count = 3\<rparr>"
    by (simp add: batch_sum_def fold_results_def add_result_pointwise example_stats_def
        AnnotationScanGroupResult_init_def)
  from m v combine_commutative_monoid
    [where bs = "[[example_stats 7 5], [example_stats 3 1, example_stats 4 4]]"
       and xs = "[example_stats 3 1, example_stats 4 4, example_stats 7 5]"]
  show ?thesis by blast
qed

section \<open>The result of scanning a text\<close>

lemma and_then_Inr: "and_then m f = Inr y \<longleftrightarrow> (\<exists>x. m = Inr x \<and> f x = Inr y)"
  by (cases m) simp_all

lemma append_if_Inr:
  "append_if test item items = Inr items' \<longleftrightarrow>
     (if test then \<exists>i. item = Inr i \<and> items' = items @ [i] else items' = items)"
  by (auto simp: append_if_def and_then_Inr)

lemma scan_node_Inr:
  assumes "scan_node lib node (as, ps, rs) = Inr (as', ps', rs')"
  shows "(if is_assign_node node then \<exists>i. Assignment lib node = Inr i \<and> as' = as @ [i]
          else as' = as)"
    and "(if is_arg_node node then \<exists>i. FunctionParameter lib node = Inr i \<and> ps' = ps @ [i]
          else ps' = ps)"
    and "(if is_function_node node then \<exists>i. FunctionReturn lib node = Inr i \<and> rs' = rs @ [i]
          else rs' = rs)"
  using assms by (auto simp: scan_node_def and_then_Inr append_if_Inr split: if_splits)

lemma tokens_of_Nil: "tokens_of test build [] items \<longleftrightarrow> items = []"
  by (simp add: tokens_of_def)

lemma tokens_of_Cons:
  "tokens_of test build (n # ns) items \<longleftrightarrow>
     (if test n then \<exists>t ts. items = t # ts \<and> build n = Inr t \<and> tokens_of test build ns ts
      else tokens_of test build ns items)"
  by (auto simp: tokens_of_def list_all2_Cons1)

lemma tokens_of_step:
  assumes "if test n then \<exists>i. build n = Inr i \<and> xs1 = xs @ [i] else xs1 = xs"
    and "tokens_of test build ns ta"
  shows "\<exists>ta'. xs1 @ ta = xs @ ta' \<and> tokens_of test build (n # ns) ta'"
proof (cases "test n")
  case True
  with assms(1) obtain i where i: "build n = Inr i" "xs1 = xs @ [i]" by auto
  have "xs1 @ ta = xs @ (i # ta)" using i by simp
  moreover have "tokens_of test build (n # ns) (i # ta)"
    using True i assms(2) by (simp add: tokens_of_Cons)
  ultimately show ?thesis by blast
next
  case False
  with assms show ?thesis by (simp add: tokens_of_Cons)
qed

lemma scan_nodes_Inr:
  assumes "scan_nodes lib nodes (as, ps, rs) = Inr (as', ps', rs')"
  shows "\<exists>ta tp tr. as' = as @ ta \<and> ps' = ps @ tp \<and> rs' = rs @ tr
     \<and> tokens_of is_assign_node (Assignment lib) nodes ta
     \<and> tokens_of is_arg_node (FunctionParameter lib) nodes tp
     \<and> tokens_of is_function_node (FunctionReturn lib) nodes tr"
  using assms
proof (induction nodes arbitrary: as ps rs)
  case Nil
  then show ?case by (simp add: tokens_of_Nil)
next
  case (Cons node nodes)
  from Cons.prems obtain as1 ps1 rs1 where
    step: "scan_node lib node (as, ps, rs) = Inr (as1, ps1, rs1)"
    and rest: "scan_nodes lib nodes (as1, ps1, rs1) = Inr (as', ps', rs')"
    by (auto simp: and_then_Inr)
  from Cons.IH [OF rest] obtain ta tp tr where
    t: "as' = as1 @ ta" "ps' = ps1 @ tp" "rs' = rs1 @ tr"
      "tokens_of is_assign_node (Assignment lib) nodes ta"
      "tokens_of is_arg_node (FunctionParameter lib) nodes tp"
      "tokens_of is_function_node (FunctionReturn lib) nodes tr"
    by blast
  have a: "\<exists>ta'. as' = as @ ta' \<and> tokens_of is_assign_node (Assignment lib) (node # nodes) ta'"
    unfolding t(1) using scan_node_Inr(1) [OF step] t(4) by (rule tokens_of_step)
  have p: "\<exists>tp'. ps' = ps @ tp' \<and> tokens_of is_arg_node (FunctionParameter lib) (node # nodes) tp'"
    unfolding t(2) using scan_node_Inr(2) [OF step] t(5) by (rule tokens_of_step)
  have r: "\<exists>tr'. rs' = rs @ tr' \<and> tokens_of is_function_node (FunctionReturn lib) (node # nodes) tr'"
    unfolding t(3) using scan_node_Inr(3) [OF step] t(6) by (rule tokens_of_step)
  from a p r show ?case by blast
qed

lemma scan_tree_Inr:
  assumes "scan_tree lib tree = Inr r"
  shows "r = AnnotationScanResult_init (assignments r) (func_params r) (func_returns r)"
    and "tokens_of is_assign_node (Assignment lib) (walk tree) (assignments r)"
    and "tokens_of is_arg_node (FunctionParameter lib) (walk tree) (func_params r)"
    and "tokens_of is_function_node (FunctionReturn lib) (walk tree) (func_returns r)"
proof -
  from assms obtain as ps rs where
    n: "scan_nodes lib (walk tree) ([], [], []) = Inr (as, ps, rs)"
    and r: "r = AnnotationScanResult_init as ps rs"
    by (auto simp: scan_tree_def and_then_Inr)
  have f: "assignments r = as" "func_params r = ps" "func_returns r = rs"
    using r by (simp_all add: AnnotationScanResult_init_def Let_def)
  from r f show "r = AnnotationScanResult_init (assignments r) (func_params r) (func_returns r)"
    by simp
  from scan_nodes_Inr [OF n] f
  show "tokens_of is_assign_node (Assignment lib) (walk tree) (assignments r)"
    and "tokens_of is_arg_node (FunctionParameter lib) (walk tree) (func_params r)"
    and "tokens_of is_function_node (FunctionReturn lib) (walk tree) (func_returns r)"
    by auto
qed

lemma scan_text_Inr:
  "scan_text lib text = Inr r \<longleftrightarrow> (\<exists>tree. ast_parse lib text = Inr tree \<and> scan_tree lib tree = Inr r)"
  by (simp add: scan_text_def and_then_Inr)

lemma count_annotated_eq: "count_annotated items = int (length (filter is_annotated items))"
  by (simp add: count_annotated_def)

lemma init_counts:
  fixes r :: AnnotationScanResult
  assumes "r = AnnotationScanResult_init (assignments r) (func_params r) (func_returns r)"
  shows "total_assign_count r = int (length (assignments r))"
    and "annotated_assign_count r = int (length (filter is_annotated (assignments r)))"
    and "unannotated_assign_count r = total_assign_count r - annotated_assign_count r"
    and "total_func_params_count r = int (length (func_params r))"
    and "annotated_func_params_count r = int (length (filter is_annotated (func_params r)))"
    and "unannotated_func_params_count r =
           total_func_params_count r - annotated_func_params_count r"
    and "total_func_returns_count r = int (length (func_returns r))"
    and "annotated_func_returns_count r = int (length (filter is_annotated (func_returns r)))"
    and "unannotated_func_returns_count r =
           total_func_returns_count r - annotated_func_returns_count r"
proof -
  define as ps rs where "as = assignments r" and "ps = func_params r" and "rs = func_returns r"
  have r: "r = AnnotationScanResult_init as ps rs"
    using assms by (simp add: as_def ps_def rs_def)
  have f: "assignments r = as" "func_params r = ps" "func_returns r = rs"
    by (simp_all add: as_def ps_def rs_def)
  show "total_assign_count r = int (length (assignments r))"
    unfolding f unfolding r by (simp add: AnnotationScanResult_init_def Let_def)
  show "annotated_assign_count r = int (length (filter is_annotated (assignments r)))"
    unfolding f unfolding r
    by (simp add: AnnotationScanResult_init_def Let_def count_annotated_eq)
  show "unannotated_assign_count r = total_assign_count r - annotated_assign_count r"
    unfolding r by (simp add: AnnotationScanResult_init_def Let_def)
  show "total_func_params_count r = int (length (func_params r))"
    unfolding f unfolding r by (simp add: AnnotationScanResult_init_def Let_def)
  show "annotated_func_params_count r = int (length (filter is_annotated (func_params r)))"
    unfolding f unfolding r
    by (simp add: AnnotationScanResult_init_def Let_def count_annotated_eq)
  show "unannotated_func_params_count r =
          total_func_params_count r - annotated_func_params_count r"
    unfolding r by (simp add: AnnotationScanResult_init_def Let_def)
  show "total_func_returns_count r = int (length (func_returns r))"
    unfolding f unfolding r by (simp add: AnnotationScanResult_init_def Let_def)
  show "annotated_func_returns_count r = int (length (filter is_annotated (func_returns r)))"
    unfolding f unfolding r
    by (simp add: AnnotationScanResult_init_def Let_def count_annotated_eq)
  show "unannotated_func_returns_count r =
          total_func_returns_count r - annotated_func_returns_count r"
    unfolding r by (simp add: AnnotationScanResult_init_def Let_def)
qed

lemma parse_examples:
  "ast_parse example_library ''a = 1'' = Inr tree_plain"
  "ast_parse example_library ''b: int = 2 + 2'' = Inr tree_annotated"
  "ast_parse example_library text_foo = Inr tree_foo"
  "ast_parse example_library ''a = b = 1'' = Inr tree_chained"
  "ast_parse example_library ''a, b = 1, 2'' = Inr tree_unpacking"
  "ast_parse example_library ''x: int'' = Inr tree_declaration"
  by (simp_all add: example_library_def example_parse_def text_foo_def newline_def)

lemma scan_foo: "scan_text example_library text_foo = Inr result_foo"
  by code_simp

lemma scan_chained: "scan_text example_library ''a = b = 1'' = Inr result_chained"
  by code_simp

lemma scan_unpacking: "scan_text example_library ''a, b = 1, 2'' = Inr result_unpacking"
  by code_simp

lemma scan_annotated: "scan_text example_library ''b: int = 2 + 2'' = Inr result_annotated"
  by code_simp

lemma scan_declaration: "scan_text example_library ''x: int'' = Inr result_declaration"
  by code_simp

text \<open>
  Claim C3. Whenever \<^verbatim>\<open>scan_text\<close> returns a result, then for assignments, for parameters
  and for returns alike the total counter is the length of the token list, the annotated
  counter is the number of tokens of the list whose \<^verbatim>\<open>is_annotated\<close> is true, and the
  annotated and unannotated counters add up to the total.
\<close>

theorem scan_text_counts:
  assumes "scan_text lib text = Inr r"
  shows "total_assign_count r = int (length (assignments r))
     \<and> annotated_assign_count r = int (length (filter is_annotated (assignments r)))
     \<and> annotated_assign_count r + unannotated_assign_count r = total_assign_count r
     \<and> total_func_params_count r = int (length (func_params r))
     \<and> annotated_func_params_count r = int (length (filter is_annotated (func_params r)))
     \<and> annotated_func_params_count r + unannotated_func_params_count r =
         total_func_params_count r
     \<and> total_func_returns_count r = int (length (func_returns r))
     \<and> annotated_func_returns_count r = int (length (filter is_annotated (func_returns r)))
     \<and> annotated_func_returns_count r + unannotated_func_returns_count r =
         total_func_returns_count r"
proof -
  from assms obtain tree where "scan_tree lib tree = Inr r"
    by (auto simp: scan_text_Inr)
  from init_counts [OF scan_tree_Inr(1) [OF this]] show ?thesis by simp
qed

theorem scan_text_counts_witness:
  "scan_text example_library text_foo = Inr result_foo
   \<and> total_func_params_count result_foo = 1
   \<and> annotated_func_params_count result_foo = 0
   \<and> unannotated_func_params_count result_foo = 1
   \<and> total_func_returns_count result_foo = 1
   \<and> annotated_func_returns_count result_foo = 1
   \<and> unannotated_func_returns_count result_foo = 0
   \<and> total_assign_count result_foo = 0"
proof -
  have "func_params result_foo = [token_bar]" "func_returns result_foo = [token_foo]"
    "assignments result_foo = []" "\<not> is_annotated token_bar" "is_annotated token_foo"
    by (simp_all add: result_foo_def AnnotationScanResult_init_def Let_def token_bar_def
        token_foo_def)
  with scan_text_counts [OF scan_foo] scan_foo show ?thesis by simp
qed

section \<open>Every token is annotated exactly when it has an annotation text\<close>

lemma unparse_ast_Inr:
  "unparse_ast lib node = Inr s \<longleftrightarrow> (\<exists>src. unparse lib node = Inr src \<and> s = strip src)"
  by (auto simp: unparse_ast_def and_then_Inr)

lemma base_init_Inr: "AnnotationItemBase_init node = Inr l \<longleftrightarrow> location_of node = Some l"
  by (auto simp: AnnotationItemBase_init_def split: option.splits)

lemma Assignment_Inr:
  assumes "Assignment lib node = Inr t"
  shows "is_assign_node node"
    and "is_annotated t \<longleftrightarrow> is_AnnAssign node"
    and "is_annotated t \<longleftrightarrow> annotated_text t \<noteq> None"
    and "\<exists>a. get_annotation node = Inr (Some a) \<and> unparse_ast lib a = Inr txt
          \<Longrightarrow> is_AnnAssign node \<Longrightarrow> annotated_text t = Some txt"
    and "unparse_ast lib node = Inr (code t)"
    and "location_of node = Some (line_range t)"
  using assms
  by (cases node; auto simp: Assignment_def and_then_Inr base_init_Inr)+

lemma Assignment_annotation:
  assumes "Assignment lib node = Inr t"
  shows "case node of
           AnnAssign _ _ annotation _ _ \<Rightarrow>
             is_annotated t
               \<and> (\<exists>src. unparse lib annotation = Inr src \<and> annotated_text t = Some (strip src))
         | _ \<Rightarrow> \<not> is_annotated t \<and> annotated_text t = None"
  using assms
  by (cases node) (auto simp: Assignment_def and_then_Inr unparse_ast_Inr)

lemma FunctionParameter_Inr:
  assumes "FunctionParameter lib node = Inr t"
  shows "is_annotated t \<longleftrightarrow> annotated_text t \<noteq> None"
    and "unparse_ast lib node = Inr (code t)"
    and "location_of node = Some (line_range t)"
  using assms
  by (auto simp: FunctionParameter_def and_then_Inr base_init_Inr split: option.splits)

lemma FunctionReturn_Inr:
  assumes "FunctionReturn lib node = Inr t"
  shows "is_annotated t \<longleftrightarrow> annotated_text t \<noteq> None"
    and "\<exists>elided. bodyless_node node = Inr elided \<and> unparse_ast lib elided = Inr (code t)"
    and "location_of node = Some (line_range t)"
  using assms
  by (auto simp: FunctionReturn_def and_then_Inr base_init_Inr split: option.splits)

lemma FunctionReturn_with_body:
  assumes "FunctionReturn lib node = Inr t"
  shows "FunctionReturn lib (with_body body node) = Inr t"
  using assms
  by (cases node)
    (auto simp: FunctionReturn_def and_then_Inr base_init_Inr AnnotationItemBase_init_def)

lemma bodyless_node_Inr:
  assumes "bodyless_node node = Inr elided"
  shows "is_function_node node"
    and "function_body elided = [placeholder]"
    and "function_signature elided = function_signature node"
    and "function_signature elided \<noteq> None"
    and "bodyless_node (with_body body node) = Inr elided"
  using assms by (cases node; auto)+

lemma tokens_of_set:
  assumes "tokens_of test build nodes items" and "t \<in> set items"
  shows "\<exists>n \<in> set nodes. test n \<and> build n = Inr t"
proof -
  from assms obtain i where i: "i < length items" "items ! i = t"
    by (auto simp: in_set_conv_nth)
  let ?ns = "filter test nodes"
  from assms(1) i have "i < length ?ns" "build (?ns ! i) = Inr t"
    by (auto simp: tokens_of_def list_all2_conv_all_nth)
  moreover from this have "?ns ! i \<in> set ?ns" by (simp only: nth_mem)
  then have "?ns ! i \<in> set nodes \<and> test (?ns ! i)" by (simp only: set_filter mem_Collect_eq)
  ultimately show ?thesis by blast
qed

lemma list_all2_tokens:
  assumes "tokens_of test build nodes items"
    and "\<And>n t. test n \<Longrightarrow> build n = Inr t \<Longrightarrow> Q n t"
  shows "list_all2 Q (filter test nodes) items"
  using assms(1) unfolding tokens_of_def
  by (rule list.rel_mono_strong) (use assms(2) in auto)

lemma tokens_of_single:
  assumes "tokens_of test build nodes items" and "filter test nodes = [n]"
  shows "\<exists>t. items = [t] \<and> build n = Inr t"
  using assms by (auto simp: tokens_of_def list_all2_Cons1)

text \<open>
  Claim C8. Whenever \<^verbatim>\<open>scan_text\<close> returns a result, every token of its three lists
  (Assignment, Parameter or Return) that is not annotated has no annotation text, and every
  token that is annotated has one.
\<close>

theorem token_annotation_invariant:
  assumes "scan_text lib text = Inr r"
    and "t \<in> set (assignments r) \<union> set (func_params r) \<union> set (func_returns r)"
  shows "(\<not> is_annotated t \<longrightarrow> annotated_text t = None)
     \<and> (is_annotated t \<longrightarrow> annotated_text t \<noteq> None)"
proof -
  from assms(1) obtain tree where tree: "scan_tree lib tree = Inr r"
    by (auto simp: scan_text_Inr)
  from assms(2) consider
    "t \<in> set (assignments r)" | "t \<in> set (func_params r)" | "t \<in> set (func_returns r)"
    by auto
  then have "is_annotated t \<longleftrightarrow> annotated_text t \<noteq> None"
  proof cases
    case 1
    with tokens_of_set [OF scan_tree_Inr(2) [OF tree]]
    obtain n where "Assignment lib n = Inr t" by blast
    then show ?thesis by (rule Assignment_Inr(3))
  next
    case 2
    with tokens_of_set [OF scan_tree_Inr(3) [OF tree]]
    obtain n where "FunctionParameter lib n = Inr t" by blast
    then show ?thesis by (rule FunctionParameter_Inr(1))
  next
    case 3
    with tokens_of_set [OF scan_tree_Inr(4) [OF tree]]
    obtain n where "FunctionReturn lib n = Inr t" by blast
    then show ?thesis by (rule FunctionReturn_Inr(1))
  qed
  then show ?thesis by simp
qed

theorem token_annotation_invariant_witness:
  "scan_text example_library text_foo = Inr result_foo
   \<and> token_bar \<in> set (assignments result_foo) \<union> set (func_params result_foo)
        \<union> set (func_returns result_foo)
   \<and> \<not> is_annotated token_bar \<and> annotated_text token_bar = None
   \<and> token_foo \<in> set (assignments result_foo) \<union> set (func_params result_foo)
        \<union> set (func_returns result_foo)
   \<and> is_annotated token_foo \<and> annotated_text token_foo \<noteq> None"
proof -
  have b: "token_bar \<in> set (assignments result_foo) \<union> set (func_params result_foo)
        \<union> set (func_returns result_foo)"
    and f: "token_foo \<in> set (assignments result_foo) \<union> set (func_params result_foo)
        \<union> set (func_returns result_foo)"
    by (simp_all add: result_foo_def AnnotationScanResult_init_def Let_def)
  have "\<not> is_annotated token_bar" "is_annotated token_foo"
    by (simp_all add: token_bar_def token_foo_def)
  with token_annotation_invariant [OF scan_foo b] token_annotation_invariant [OF scan_foo f]
    scan_foo b f
  show ?thesis by simp
qed

section \<open>The walk visits every node of the tree once\<close>

lemma mset_walk_todo: "mset (walk_todo todo) = mset (concat (map subtrees todo))"
proof (induction todo rule: walk_todo.induct)
  case 1
  show ?case by simp
next
  case (2 node todo)
  have "mset (subtrees node) = {#node#} + mset (concat (map subtrees (iter_child_nodes node)))"
    by (subst subtrees.simps) simp
  with 2 show ?case by simp
qed

lemma mset_walk: "mset (walk tree) = mset (subtrees tree)"
  unfolding walk_def mset_walk_todo by simp

lemma length_filter_walk: "length (filter P (walk tree)) = length (filter P (subtrees tree))"
proof -
  have "mset (filter P (walk tree)) = mset (filter P (subtrees tree))"
    by (simp add: mset_walk)
  then show ?thesis by (metis size_mset)
qed

lemma tokens_of_length:
  "tokens_of test build (walk tree) items \<Longrightarrow>
   length items = length (filter test (subtrees tree))"
  by (auto simp: tokens_of_def dest: list_all2_lengthD simp flip: length_filter_walk)

lemma walk_chained: "filter is_assign_node (walk tree_chained) = [stmt_chained]"
  by code_simp

lemma walk_unpacking: "filter is_assign_node (walk tree_unpacking) = [stmt_unpacking]"
  by code_simp

lemma not_AnnAssign_examples: "\<not> is_AnnAssign stmt_chained" "\<not> is_AnnAssign stmt_unpacking"
  by (simp_all add: stmt_chained_def stmt_unpacking_def)

lemma walk_annotated: "filter is_assign_node (walk tree_annotated) = [stmt_annotated]"
  by code_simp

lemma subtrees_declaration: "filter binds_names_to_value (subtrees tree_declaration) = []"
  by code_simp

text \<open>
  Claim C9. Whenever \<^verbatim>\<open>scan_text\<close> returns a result for a text that parses to a tree, the
  number of Assignment tokens is the number of assignment nodes (\<^verbatim>\<open>Assign\<close> or \<^verbatim>\<open>AnnAssign\<close>)
  of the tree, one token for each node in the order of the walk, whatever its targets are,
  and the token is annotated exactly when the node is an \<^verbatim>\<open>AnnAssign\<close>. For the tree of the
  chained assignment \<^verbatim>\<open>a = b = 1\<close> and for the tree of the tuple-unpacking assignment
  \<^verbatim>\<open>a, b = 1, 2\<close> there is exactly one Assignment token, and it is unannotated.
\<close>

theorem one_token_per_assignment_node:
  assumes "ast_parse lib text = Inr tree" and "scan_text lib text = Inr r"
  shows "length (assignments r) = length (filter is_assign_node (subtrees tree))
     \<and> list_all2 (\<lambda>node t. Assignment lib node = Inr t \<and> (is_annotated t \<longleftrightarrow> is_AnnAssign node))
          (filter is_assign_node (walk tree)) (assignments r)
     \<and> (tree = tree_chained \<or> tree = tree_unpacking \<longrightarrow>
          (\<exists>t. assignments r = [t] \<and> \<not> is_annotated t \<and> annotated_text t = None))"
proof -
  from assms have tree: "scan_tree lib tree = Inr r"
    by (auto simp: scan_text_Inr)
  note toks = scan_tree_Inr(2) [OF tree]
  have "length (assignments r) = length (filter is_assign_node (subtrees tree))"
    using toks by (rule tokens_of_length)
  moreover have "list_all2
      (\<lambda>node t. Assignment lib node = Inr t \<and> (is_annotated t \<longleftrightarrow> is_AnnAssign node))
      (filter is_assign_node (walk tree)) (assignments r)"
    using toks by (rule list_all2_tokens) (simp add: Assignment_Inr(2))
  moreover have "\<exists>t. assignments r = [t] \<and> \<not> is_annotated t \<and> annotated_text t = None"
    if "tree = tree_chained \<or> tree = tree_unpacking"
  proof -
    from that obtain n where n: "filter is_assign_node (walk tree) = [n]" "\<not> is_AnnAssign n"
      using walk_chained walk_unpacking not_AnnAssign_examples by auto
    from tokens_of_single [OF toks n(1)] obtain t where
      t: "assignments r = [t]" "Assignment lib n = Inr t" by blast
    from Assignment_Inr(2,3) [OF t(2)] n(2) have "\<not> is_annotated t" "annotated_text t = None"
      by auto
    with t(1) show ?thesis by simp
  qed
  ultimately show ?thesis by blast
qed

theorem one_token_per_assignment_node_witness:
  "ast_parse example_library ''a = b = 1'' = Inr tree_chained
   \<and> scan_text example_library ''a = b = 1'' = Inr result_chained
   \<and> ast_parse example_library ''a, b = 1, 2'' = Inr tree_unpacking
   \<and> scan_text example_library ''a, b = 1, 2'' = Inr result_unpacking
   \<and> length (assignments result_chained) = length (filter is_assign_node (subtrees tree_chained))
   \<and> length (assignments result_unpacking) =
       length (filter is_assign_node (subtrees tree_unpacking))
   \<and> assignments result_chained = [token_chained]
   \<and> assignments result_unpacking = [token_unpacking]
   \<and> \<not> is_annotated token_chained
   \<and> \<not> is_annotated token_unpacking"
proof -
  have "assignments result_chained = [token_chained]" "\<not> is_annotated token_chained"
    "assignments result_unpacking = [token_unpacking]" "\<not> is_annotated token_unpacking"
    by (simp_all add: result_chained_def result_unpacking_def AnnotationScanResult_init_def
        Let_def token_chained_def token_unpacking_def)
  with one_token_per_assignment_node [OF parse_examples(4) scan_chained]
    one_token_per_assignment_node [OF parse_examples(5) scan_unpacking]
    parse_examples(4,5) scan_chained scan_unpacking
  show ?thesis by simp
qed

section \<open>The text of a Return token does not depend on the body\<close>

text \<open>
  Claim C4. Whenever \<^verbatim>\<open>scan_text\<close> returns a result for a text that parses to a tree, there
  is exactly one Return token for each function or async function definition of the tree.
  The source text of the token is the stripped text that \<^verbatim>\<open>unparse\<close> gives for a copy of
  the definition whose body is the single placeholder statement \<^verbatim>\<open>...\<close> and whose
  signature (name, parameters, return annotation) is that of the definition. The copy, and
  with it the token, is the same whatever body the definition has: no statement of the body
  reaches the text, and the size of the text does not grow with the body.
\<close>

theorem return_token_elides_body:
  assumes "ast_parse lib text = Inr tree" and "scan_text lib text = Inr r"
  shows "length (func_returns r) = length (filter is_function_node (subtrees tree))
     \<and> list_all2
          (\<lambda>node t. \<exists>elided src.
              bodyless_node node = Inr elided
            \<and> function_body elided = [placeholder]
            \<and> function_signature elided = function_signature node
            \<and> function_signature node \<noteq> None
            \<and> unparse lib elided = Inr src \<and> code t = strip src
            \<and> (\<forall>body. bodyless_node (with_body body node) = Inr elided
                     \<and> FunctionReturn lib (with_body body node) = Inr t))
          (filter is_function_node (walk tree)) (func_returns r)"
proof -
  from assms have tree: "scan_tree lib tree = Inr r"
    by (auto simp: scan_text_Inr)
  note toks = scan_tree_Inr(4) [OF tree]
  have "length (func_returns r) = length (filter is_function_node (subtrees tree))"
    using toks by (rule tokens_of_length)
  moreover have "list_all2
          (\<lambda>node t. \<exists>elided src.
              bodyless_node node = Inr elided
            \<and> function_body elided = [placeholder]
            \<and> function_signature elided = function_signature node
            \<and> function_signature node \<noteq> None
            \<and> unparse lib elided = Inr src \<and> code t = strip src
            \<and> (\<forall>body. bodyless_node (with_body body node) = Inr elided
                     \<and> FunctionReturn lib (with_body body node) = Inr t))
          (filter is_function_node (walk tree)) (func_returns r)"
    using toks
  proof (rule list_all2_tokens)
    fix n t
    assume t: "FunctionReturn lib n = Inr t"
    from FunctionReturn_Inr(2) [OF t] obtain elided src where
      e: "bodyless_node n = Inr elided" "unparse lib elided = Inr src" "code t = strip src"
      by (auto simp: unparse_ast_Inr)
    from bodyless_node_Inr [OF e(1)] FunctionReturn_with_body [OF t] e
    show "\<exists>elided src.
              bodyless_node n = Inr elided
            \<and> function_body elided = [placeholder]
            \<and> function_signature elided = function_signature n
            \<and> function_signature n \<noteq> None
            \<and> unparse lib elided = Inr src \<and> code t = strip src
            \<and> (\<forall>body. bodyless_node (with_body body n) = Inr elided
                     \<and> FunctionReturn lib (with_body body n) = Inr t)"
      by auto
  qed
  ultimately show ?thesis by blast
qed

theorem return_token_elides_body_witness:
  "ast_parse example_library text_foo = Inr tree_foo
   \<and> scan_text example_library text_foo = Inr result_foo
   \<and> length (func_returns result_foo) = length (filter is_function_node (subtrees tree_foo))
   \<and> func_returns result_foo = [token_foo]
   \<and> length (filter is_function_node (subtrees tree_foo)) = 1"
proof -
  have "func_returns result_foo = [token_foo]"
    by (simp add: result_foo_def AnnotationScanResult_init_def Let_def)
  with return_token_elides_body [OF parse_examples(3) scan_foo] parse_examples(3) scan_foo
  show ?thesis by simp
qed

section \<open>Which nodes are Assignment tokens\<close>

lemma strip_int: "strip (''int'' @ newline) = ''int''"
  by (simp add: strip_def isspace_def newline_def)

lemma binds_is_assign: "binds_names_to_value node \<Longrightarrow> is_assign_node node"
  by (cases node) simp_all

text \<open>
  Claim C5, as amended. A node is classified as an Assignment token exactly when it is an
  \<^verbatim>\<open>Assign\<close> or an \<^verbatim>\<open>AnnAssign\<close> node: every node that binds one or more names to a value
  is one, and so is an annotation without a value. The token of an \<^verbatim>\<open>AnnAssign\<close> node has
  \<^verbatim>\<open>is_annotated\<close> true and the stripped unparsed annotation as its annotation text; the
  token of an \<^verbatim>\<open>Assign\<close> node has \<^verbatim>\<open>is_annotated\<close> false and no annotation text. For the
  tree of \<^verbatim>\<open>b: int = 2 + 2\<close>, with the name \<^verbatim>\<open>int\<close> unparsed as \<^verbatim>\<open>int\<close> and a newline, there
  is exactly one Assignment token, annotated, with annotation text \<^verbatim>\<open>int\<close>.
\<close>

theorem assignment_token_by_node_class:
  assumes "ast_parse lib text = Inr tree" and "scan_text lib text = Inr r"
  shows "list_all2
          (\<lambda>node t. Assignment lib node = Inr t
             \<and> (case node of
                  AnnAssign _ _ annotation _ _ \<Rightarrow>
                    is_annotated t
                      \<and> (\<exists>src. unparse lib annotation = Inr src
                              \<and> annotated_text t = Some (strip src))
                | _ \<Rightarrow> \<not> is_annotated t \<and> annotated_text t = None))
          (filter is_assign_node (walk tree)) (assignments r)
     \<and> length (assignments r) = length (filter is_assign_node (subtrees tree))
     \<and> (\<forall>node. binds_names_to_value node \<longrightarrow> is_assign_node node)
     \<and> (tree = tree_annotated
          \<and> unparse lib (ex_Name ''int'' ''Load'') = Inr (''int'' @ newline) \<longrightarrow>
        (\<exists>t. assignments r = [t] \<and> is_annotated t \<and> annotated_text t = Some ''int''))"
proof -
  from assms have tree: "scan_tree lib tree = Inr r"
    by (auto simp: scan_text_Inr)
  note toks = scan_tree_Inr(2) [OF tree]
  have "list_all2
          (\<lambda>node t. Assignment lib node = Inr t
             \<and> (case node of
                  AnnAssign _ _ annotation _ _ \<Rightarrow>
                    is_annotated t
                      \<and> (\<exists>src. unparse lib annotation = Inr src
                              \<and> annotated_text t = Some (strip src))
                | _ \<Rightarrow> \<not> is_annotated t \<and> annotated_text t = None))
          (filter is_assign_node (walk tree)) (assignments r)"
    using toks by (rule list_all2_tokens) (simp add: Assignment_annotation)
  moreover have "length (assignments r) = length (filter is_assign_node (subtrees tree))"
    using toks by (rule tokens_of_length)
  moreover have "\<exists>t. assignments r = [t] \<and> is_annotated t \<and> annotated_text t = Some ''int''"
    if "tree = tree_annotated"
      and u: "unparse lib (ex_Name ''int'' ''Load'') = Inr (''int'' @ newline)"
  proof -
    from tokens_of_single [OF toks walk_annotated [folded that(1)]] obtain t where
      t: "assignments r = [t]" "Assignment lib stmt_annotated = Inr t"
      by blast
    from Assignment_annotation [OF t(2)] u strip_int
    have "is_annotated t" "annotated_text t = Some ''int''"
      by (simp_all add: stmt_annotated_def)
    with t(1) show ?thesis by simp
  qed
  ultimately show ?thesis using binds_is_assign by blast
qed

theorem assignment_token_by_node_class_witness:
  "ast_parse example_library ''b: int = 2 + 2'' = Inr tree_annotated
   \<and> scan_text example_library ''b: int = 2 + 2'' = Inr result_annotated
   \<and> unparse example_library (ex_Name ''int'' ''Load'') = Inr (''int'' @ newline)
   \<and> assignments result_annotated = [token_annotated]
   \<and> is_annotated token_annotated
   \<and> annotated_text token_annotated = Some ''int''
   \<and> binds_names_to_value (Assign None [ex_Name ''a'' ''Store''] (ex_Num 1) None)
   \<and> is_assign_node (Assign None [ex_Name ''a'' ''Store''] (ex_Num 1) None)"
proof -
  have u: "unparse example_library (ex_Name ''int'' ''Load'') = Inr (''int'' @ newline)"
    by (simp add: example_library_def example_unparse_def)
  have a: "assignments result_annotated = [token_annotated]"
    "is_annotated token_annotated" "annotated_text token_annotated = Some ''int''"
    by (simp_all add: result_annotated_def AnnotationScanResult_init_def Let_def
        token_annotated_def)
  from assignment_token_by_node_class [OF parse_examples(2) scan_annotated]
    parse_examples(2) scan_annotated u a
  show ?thesis by simp
qed

text \<open>
  Claim C5 as it was stated fails on \<^verbatim>\<open>x: int\<close>: no node of its tree binds a name to a
  value, and the scan has one Assignment token.
\<close>

theorem assignment_iff_binds_value_counterexample:
  "ast_parse example_library ''x: int'' = Inr tree_declaration
   \<and> filter binds_names_to_value (subtrees tree_declaration) = []
   \<and> scan_text example_library ''x: int'' = Inr result_declaration
   \<and> assignments result_declaration = [token_declaration]"
  using parse_examples(6) subtrees_declaration scan_declaration
  by (simp add: result_declaration_def AnnotationScanResult_init_def Let_def)

section \<open>Running the generator of scan\_files\<close>

lemma consume_Suspended_Nil: "consume lib st (Suspended a []) = ([], None, st)"
  by (simp add: consume.simps)

lemma consume_Suspended_Inl:
  assumes "scan_file lib p = Inl err"
  shows "consume lib st (Suspended a (p # ps)) = ([], Some err, st)"
  using assms by (subst consume.simps) simp

lemma consume_Suspended_Inr:
  assumes "scan_file lib p = Inr fr"
  shows "consume lib st (Suspended a (p # ps)) =
     (\<lparr>summary = a, file_path = p, file_result = fr,
        store_then = st[a := add_result (st ! a) fr]\<rparr>
        # fst (consume lib (st[a := add_result (st ! a) fr]) (Suspended a ps)),
      fst (snd (consume lib (st[a := add_result (st ! a) fr]) (Suspended a ps))),
      snd (snd (consume lib (st[a := add_result (st ! a) fr]) (Suspended a ps))))"
  using assms
  by (subst consume.simps) (simp add: add_in_place_def split: prod.splits)

lemma consume_Created:
  "consume lib st (Created ps) =
     consume lib (st @ [AnnotationScanGroupResult_init]) (Suspended (length st) ps)"
  by (subst consume.simps, subst (2) consume.simps)
    (simp add: new_AnnotationScanGroupResult_def)

lemma scans_ok_Inr: "scan_file lib p = Inr fr \<Longrightarrow> scans_ok lib p"
  by (simp add: scans_ok_def)

lemma scans_ok_Inl: "scan_file lib p = Inl e \<Longrightarrow> \<not> scans_ok lib p"
  by (simp add: scans_ok_def)

lemma consume_paths:
  "map file_path (fst (consume lib st (Suspended a paths))) = takeWhile (scans_ok lib) paths"
proof (induction paths arbitrary: st)
  case Nil
  show ?case by (simp add: consume_Suspended_Nil)
next
  case (Cons p ps)
  show ?case
  proof (cases "scan_file lib p")
    case (Inl e)
    then show ?thesis by (simp add: consume_Suspended_Inl scans_ok_Inl)
  next
    case (Inr fr)
    then show ?thesis by (simp add: consume_Suspended_Inr scans_ok_Inr Cons.IH)
  qed
qed

lemma consume_results:
  "map (\<lambda>y. Inr (file_result y)) (fst (consume lib st (Suspended a paths))) =
     map (scan_file lib) (takeWhile (scans_ok lib) paths)"
proof (induction paths arbitrary: st)
  case Nil
  show ?case by (simp add: consume_Suspended_Nil)
next
  case (Cons p ps)
  show ?case
  proof (cases "scan_file lib p")
    case (Inl e)
    then show ?thesis by (simp add: consume_Suspended_Inl scans_ok_Inl)
  next
    case (Inr fr)
    then show ?thesis by (simp add: consume_Suspended_Inr scans_ok_Inr Cons.IH)
  qed
qed

lemma consume_error:
  "fst (snd (consume lib st (Suspended a paths))) = first_error lib paths"
proof (induction paths arbitrary: st)
  case Nil
  show ?case by (simp add: consume_Suspended_Nil first_error_def)
next
  case (Cons p ps)
  show ?case
  proof (cases "scan_file lib p")
    case (Inl e)
    then show ?thesis by (simp add: consume_Suspended_Inl scans_ok_Inl first_error_def)
  next
    case (Inr fr)
    then show ?thesis
      using Cons.IH by (simp add: consume_Suspended_Inr scans_ok_Inr first_error_def)
  qed
qed

lemma consume_summary:
  "y \<in> set (fst (consume lib st (Suspended a paths))) \<Longrightarrow> summary y = a"
proof (induction paths arbitrary: st)
  case Nil
  then show ?case by (simp add: consume_Suspended_Nil)
next
  case (Cons p ps)
  show ?case
  proof (cases "scan_file lib p")
    case (Inl e)
    with Cons.prems show ?thesis by (simp add: consume_Suspended_Inl)
  next
    case (Inr fr)
    with Cons.prems Cons.IH show ?thesis by (auto simp: consume_Suspended_Inr)
  qed
qed

lemma consume_length_store:
  "length (snd (snd (consume lib st (Suspended a paths)))) = length st"
proof (induction paths arbitrary: st)
  case Nil
  show ?case by (simp add: consume_Suspended_Nil)
next
  case (Cons p ps)
  show ?case
  proof (cases "scan_file lib p")
    case (Inl e)
    then show ?thesis by (simp add: consume_Suspended_Inl)
  next
    case (Inr fr)
    then show ?thesis by (simp add: consume_Suspended_Inr Cons.IH)
  qed
qed

lemma consume_final:
  assumes "a < length st"
  shows "snd (snd (consume lib st (Suspended a paths))) ! a =
     fold_results (st ! a) (map file_result (fst (consume lib st (Suspended a paths))))"
  using assms
proof (induction paths arbitrary: st)
  case Nil
  then show ?case by (simp add: consume_Suspended_Nil fold_results_def)
next
  case (Cons p ps)
  show ?case
  proof (cases "scan_file lib p")
    case (Inl e)
    then show ?thesis by (simp add: consume_Suspended_Inl fold_results_def)
  next
    case (Inr fr)
    let ?st1 = "st[a := add_result (st ! a) fr]"
    have "a < length ?st1" using Cons.prems by simp
    from Cons.IH [OF this] Inr Cons.prems show ?thesis
      by (simp add: consume_Suspended_Inr fold_results_def)
  qed
qed

lemma consume_then:
  assumes "a < length st" and "i < length (fst (consume lib st (Suspended a paths)))"
  shows "store_then (fst (consume lib st (Suspended a paths)) ! i) ! a =
     fold_results (st ! a)
       (map file_result (take (Suc i) (fst (consume lib st (Suspended a paths)))))
     \<and> length (store_then (fst (consume lib st (Suspended a paths)) ! i)) = length st"
  using assms
proof (induction paths arbitrary: st i)
  case Nil
  then show ?case by (simp add: consume_Suspended_Nil)
next
  case (Cons p ps)
  show ?case
  proof (cases "scan_file lib p")
    case (Inl e)
    with Cons.prems show ?thesis by (simp add: consume_Suspended_Inl)
  next
    case (Inr fr)
    let ?st1 = "st[a := add_result (st ! a) fr]"
    have a1: "a < length ?st1" using Cons.prems by simp
    show ?thesis
    proof (cases i)
      case 0
      with Inr Cons.prems show ?thesis
        by (simp add: consume_Suspended_Inr fold_results_def)
    next
      case (Suc j)
      with Cons.prems(2) Inr have j: "j < length (fst (consume lib ?st1 (Suspended a ps)))"
        by (simp add: consume_Suspended_Inr)
      from Cons.IH [OF a1 j] Inr Suc Cons.prems(1) show ?thesis
        by (simp add: consume_Suspended_Inr fold_results_def)
    qed
  qed
qed

lemma consume_frame:
  "b \<noteq> a \<Longrightarrow> snd (snd (consume lib st (Suspended a paths))) ! b = st ! b"
proof (induction paths arbitrary: st)
  case Nil
  show ?case by (simp add: consume_Suspended_Nil)
next
  case (Cons p ps)
  show ?case
  proof (cases "scan_file lib p")
    case (Inl e)
    then show ?thesis by (simp add: consume_Suspended_Inl)
  next
    case (Inr fr)
    with Cons show ?thesis by (simp add: consume_Suspended_Inr)
  qed
qed

lemma first_error_None: "first_error lib paths = None \<Longrightarrow> takeWhile (scans_ok lib) paths = paths"
proof (induction paths)
  case Nil
  show ?case by simp
next
  case (Cons p ps)
  then show ?case
    by (cases "scan_file lib p") (auto simp: first_error_def scans_ok_def)
qed

lemma consume_nonempty:
  assumes "paths \<noteq> []"
  shows "fst (consume lib st (scan_files paths)) \<noteq> []
       \<or> fst (snd (consume lib st (scan_files paths))) \<noteq> None"
proof -
  from assms obtain p ps where p: "paths = p # ps" by (cases paths) auto
  show ?thesis
    by (cases "scan_file lib p")
      (simp_all add: p scan_files_def consume_Created consume_Suspended_Inl
        consume_Suspended_Inr)
qed

lemma good_run:
  "map file_path (fst (consume example_library [] (scan_files good_paths))) = good_paths"
  "map summary (fst (consume example_library [] (scan_files good_paths))) = [0, 0, 0]"
  "deref (store_then (fst (consume example_library [] (scan_files good_paths)) ! 0)) 0 =
     Some total_after_first"
  "deref (snd (snd (consume example_library [] (scan_files good_paths)))) 0 =
     Some total_after_last"
  "fst (snd (consume example_library [] (scan_files good_paths))) = None"
  by code_simp+

text \<open>
  Claim C2, as amended. \<^verbatim>\<open>scan_files\<close> does not catch the exception of a file: a caller
  that runs the generator receives the triples of the files before the first file whose scan
  raises, each with the result of its file, in order, and then that file's exception; the
  files after it are not scanned.
\<close>

theorem scan_files_stops_at_first_error:
  "map file_path (fst (consume lib st (scan_files paths))) = takeWhile (scans_ok lib) paths
   \<and> map (\<lambda>y. Inr (file_result y)) (fst (consume lib st (scan_files paths))) =
       map (scan_file lib) (takeWhile (scans_ok lib) paths)
   \<and> fst (snd (consume lib st (scan_files paths))) = first_error lib paths"
  by (simp add: scan_files_def consume_Created consume_paths consume_results consume_error)

text \<open>
  Claim C2 as it was stated fails on three files of which the second does not parse: the
  third file scans well on its own, and the run yields the first file only and ends with the
  syntax error.
\<close>

theorem scan_files_continues_counterexample:
  "scan_file example_library ''f1_bad.py'' = Inl SyntaxError
   \<and> scan_file example_library ''f2.py'' = Inr result_annotated
   \<and> map file_path (fst (consume example_library [] (scan_files example_paths))) = [''f1.py'']
   \<and> fst (snd (consume example_library [] (scan_files example_paths))) = Some SyntaxError"
  by code_simp

text \<open>
  Claim C10. \<^verbatim>\<open>+\<close> returns its left operand, and in the store it leaves the sum at the
  address of that operand and every other object as it was. Every triple that a run of \<^verbatim>\<open>scan_files\<close>
  yields carries the same reference, that of the accumulator made at the start of the run.
  At the moment a triple is yielded the accumulator holds the sum of the file results
  yielded so far; after the run the reference of every triple, the earlier ones too, gives
  the sum of all the file results yielded. The objects that existed before the run are
  unchanged, and a run that ends without exception has visited every path.
\<close>

theorem shared_accumulator:
  assumes "consume lib st (scan_files paths) = (ys, e, st')"
  shows "fst (add_in_place s0 a x) = a
     \<and> deref (snd (add_in_place s0 a x)) b =
         (if b = a \<and> a < length s0 then Some (add_result (s0 ! a) x) else deref s0 b)
     \<and> (\<forall>y \<in> set ys. summary y = length st)
     \<and> (\<forall>i < length ys. deref (store_then (ys ! i)) (summary (ys ! i)) =
           Some (batch_sum (map file_result (take (Suc i) ys))))
     \<and> (\<forall>y \<in> set ys. deref st' (summary y) = Some (batch_sum (map file_result ys)))
     \<and> (\<forall>b < length st. deref st' b = deref st b)
     \<and> (e = None \<longrightarrow> map file_path ys = paths)"
proof -
  let ?st0 = "st @ [AnnotationScanGroupResult_init]"
  let ?a = "length st"
  have run: "consume lib ?st0 (Suspended ?a paths) = (ys, e, st')"
    using assms by (simp add: scan_files_def consume_Created)
  have ys: "ys = fst (consume lib ?st0 (Suspended ?a paths))"
    and e: "e = fst (snd (consume lib ?st0 (Suspended ?a paths)))"
    and st': "st' = snd (snd (consume lib ?st0 (Suspended ?a paths)))"
    by (simp_all add: run)
  have a: "?a < length ?st0" by simp
  have len: "length st' = Suc (length st)"
    unfolding st' by (simp add: consume_length_store)
  have s: "\<forall>y \<in> set ys. summary y = ?a"
    unfolding ys by (auto dest: consume_summary)
  have fin: "st' ! ?a = batch_sum (map file_result ys)"
    unfolding st' ys using consume_final [OF a, of lib paths] by (simp add: batch_sum_def)
  have "\<forall>i < length ys. deref (store_then (ys ! i)) (summary (ys ! i)) =
           Some (batch_sum (map file_result (take (Suc i) ys)))"
  proof (intro allI impI)
    fix i assume i: "i < length ys"
    then have "summary (ys ! i) = ?a" using s by simp
    moreover from consume_then [OF a, of i lib paths] i
    have "store_then (ys ! i) ! ?a = batch_sum (map file_result (take (Suc i) ys))"
      and "length (store_then (ys ! i)) = Suc (length st)"
      unfolding ys by (simp_all add: batch_sum_def)
    ultimately show "deref (store_then (ys ! i)) (summary (ys ! i)) =
           Some (batch_sum (map file_result (take (Suc i) ys)))"
      by (simp add: deref_def)
  qed
  moreover have "\<forall>y \<in> set ys. deref st' (summary y) = Some (batch_sum (map file_result ys))"
    using s fin len by (simp add: deref_def)
  moreover have "\<forall>b < length st. deref st' b = deref st b"
  proof (intro allI impI)
    fix b assume b: "b < length st"
    then have "st' ! b = ?st0 ! b" unfolding st' by (simp add: consume_frame)
    with b len show "deref st' b = deref st b" by (simp add: deref_def nth_append)
  qed
  moreover have "e = None \<longrightarrow> map file_path ys = paths"
    unfolding e ys by (simp add: consume_error consume_paths first_error_None)
  moreover have "fst (add_in_place s0 a x) = a" by (simp add: add_in_place_def)
  moreover have "deref (snd (add_in_place s0 a x)) b =
         (if b = a \<and> a < length s0 then Some (add_result (s0 ! a) x) else deref s0 b)"
    by (simp add: add_in_place_def deref_def)
  ultimately show ?thesis using s by blast
qed

theorem shared_accumulator_witness:
  "map file_path (fst (consume example_library [] (scan_files good_paths))) = good_paths
   \<and> map summary (fst (consume example_library [] (scan_files good_paths))) = [0, 0, 0]
   \<and> deref (store_then (fst (consume example_library [] (scan_files good_paths)) ! 0)) 0 =
       Some total_after_first
   \<and> deref (snd (snd (consume example_library [] (scan_files good_paths)))) 0 =
       Some total_after_last
   \<and> batch_sum (map file_result (fst (consume example_library [] (scan_files good_paths)))) =
       total_after_last
   \<and> total_after_first \<noteq> total_after_last"
proof -
  let ?run = "consume example_library [] (scan_files good_paths)"
  have "?run = (fst ?run, fst (snd ?run), snd (snd ?run))" by simp
  from shared_accumulator [OF this]
  have "\<forall>y \<in> set (fst ?run). deref (snd (snd ?run)) (summary y) =
          Some (batch_sum (map file_result (fst ?run)))"
    by blast
  moreover have "fst ?run ! 0 \<in> set (fst ?run)" "summary (fst ?run ! 0) = 0"
    using good_run(2) by (auto simp: map_eq_Cons_conv)
  ultimately have "deref (snd (snd ?run)) 0 = Some (batch_sum (map file_result (fst ?run)))"
    by metis
  then have "batch_sum (map file_result (fst ?run)) = total_after_last"
    using good_run(4) by simp
  moreover have "total_after_first \<noteq> total_after_last"
    by (simp add: total_after_first_def total_after_last_def)
  ultimately show ?thesis using good_run by simp
qed

section \<open>What scan\_folder returns\<close>

lemma humansorted_Nil_iff: "humansorted paths = [] \<longleftrightarrow> paths = []"
proof -
  have "length (humansorted paths) = length paths" by (simp add: humansorted_def)
  then show ?thesis by (metis length_0_conv)
qed

lemma scan_folder_eq:
  "scan_folder lib folder pattern =
     (if glob lib folder pattern = [] then None
      else Some (scan_files (humansorted (glob lib folder pattern))))"
  by (simp add: scan_folder_def Let_def humansorted_Nil_iff)

text \<open>
  Claim C6. \<^verbatim>\<open>scan_folder\<close> returns \<^verbatim>\<open>None\<close> exactly when no path matches the pattern.
  When a path matches, it returns the generator of \<^verbatim>\<open>scan_files\<close> over the sorted paths,
  and a run of that generator yields at least one triple or raises: \<^verbatim>\<open>None\<close> is no
  generator, and no generator that is returned stands for an empty scan.
\<close>

theorem scan_folder_no_files_signal:
  "(scan_folder lib folder pattern = None \<longleftrightarrow> glob lib folder pattern = [])
   \<and> (glob lib folder pattern \<noteq> [] \<longrightarrow>
        scan_folder lib folder pattern =
          Some (scan_files (humansorted (glob lib folder pattern))))
   \<and> (scan_folder lib folder pattern = Some g \<longrightarrow>
        fst (consume lib st g) \<noteq> [] \<or> fst (snd (consume lib st g)) \<noteq> None)"
proof -
  have "fst (consume lib st g) \<noteq> [] \<or> fst (snd (consume lib st g)) \<noteq> None"
    if "scan_folder lib folder pattern = Some g"
  proof -
    from that have "g = scan_files (humansorted (glob lib folder pattern))"
      and "humansorted (glob lib folder pattern) \<noteq> []"
      by (auto simp: scan_folder_eq humansorted_Nil_iff split: if_splits)
    then show ?thesis using consume_nonempty by blast
  qed
  then show ?thesis by (simp add: scan_folder_eq)
qed

theorem scan_folder_no_files_signal_witness:
  "glob example_library ''empty'' default_glob = []
   \<and> scan_folder example_library ''empty'' default_glob = None
   \<and> scan_folder example_library ''repo'' default_glob =
       Some (scan_files [''f1.py'', ''f2.py'', ''f10.py''])
   \<and> map file_path (fst (consume example_library []
        (scan_files [''f1.py'', ''f2.py'', ''f10.py'']))) = [''f1.py'', ''f2.py'', ''f10.py'']"
proof -
  have g: "glob example_library ''empty'' default_glob = []"
    "glob example_library ''repo'' default_glob = [''f2.py'', ''f10.py'', ''f1.py'']"
    by (simp_all add: example_library_def example_glob_def)
  have h: "humansorted [''f2.py'', ''f10.py'', ''f1.py''] = [''f1.py'', ''f2.py'', ''f10.py'']"
    by code_simp
  have r: "map file_path (fst (consume example_library []
        (scan_files [''f1.py'', ''f2.py'', ''f10.py'']))) = [''f1.py'', ''f2.py'', ''f10.py'']"
    by code_simp
  from scan_folder_no_files_signal [of example_library "''empty''" default_glob]
    scan_folder_no_files_signal [of example_library "''repo''" default_glob]
    g h r
  show ?thesis by simp
qed



















end
